theory Spec2Isabelle
  imports Main
begin

section \<open>The data-binding custom element of \<^verbatim>\<open>src/components/base-component.js\<close>\<close>

text \<open>
  The file defines one class, \<^verbatim>\<open>BaseComponent\<close>, with a constructor, the callback
  \<^verbatim>\<open>attributeChangedCallback\<close> and the registration method \<^verbatim>\<open>observeAttribute\<close>.
  Elements are objects on a heap: a subscriber is a reference to another element, and a
  notification mutates the element it reaches, so the model threads the whole heap.

  The class runs on the host's document objects. They are modelled as follows.
  \<^item> A shadow tree is a forest of text nodes and elements. The text content of an element
    is the concatenation of the text nodes below it; assigning to \<^verbatim>\<open>textContent\<close> replaces
    the element's children by one text node (by nothing for the empty string), and
    \<^verbatim>\<open>null\<close> and \<^verbatim>\<open>undefined\<close> are assigned as the empty string.
  \<^item> What assigning to \<^verbatim>\<open>value\<close> does depends on the element (an ordinary element keeps
    the value as it is, a form control converts or sanitises it, a file input throws, an
    output element shows it as its text): every element carries its own setter, a
    function from the assigned value and the text content the element has then to an
    exception, or to what \<^verbatim>\<open>value\<close> reads afterwards and the text content the element has
    afterwards.
  \<^item> Values are strings, \<^verbatim>\<open>null\<close> and \<^verbatim>\<open>undefined\<close>: what an attribute has, and what the
    class passes on when it is given them.
  \<^item> Only some elements (form controls) have a \<^verbatim>\<open>name\<close> property that reflects the
    \<^verbatim>\<open>name\<close> attribute; on the others the property is \<^verbatim>\<open>undefined\<close>.
  \<^item> The attribute's name is pasted into the text of a selector. For a name without a
    character that is special inside a quoted string of a selector (double quote,
    backslash, line feed, carriage return, form feed, NUL) the selector selects the
    elements whose \<^verbatim>\<open>name\<close> attribute is \<^verbatim>\<open>bind-\<close> followed by the name. For every other
    name the answer of the host's selector engine is a parameter of the model.
  \<^item> \<^verbatim>\<open>this.subscribers\<close> is \<^verbatim>\<open>undefined\<close> or a plain object, whose property reads also
    see what a plain object inherits from \<^verbatim>\<open>Object.prototype\<close>.
  \<^item> \<^verbatim>\<open>this.dataset[key] = v\<close> follows the host's rule for \<^verbatim>\<open>dataset\<close> names and, for
    an attribute the class declares in \<^verbatim>\<open>observedAttributes\<close>, makes the host call
    \<^verbatim>\<open>attributeChangedCallback\<close> before the assignment returns.
\<close>

subsection \<open>Values, nodes, elements\<close>

type_synonym ref = nat

datatype jsval = Undefined | Null | Str string

datatype error = TypeError | RangeError | SyntaxError | InvalidCharacterError | InvalidStateError

text \<open>
  An element of a shadow tree: its \<^verbatim>\<open>name\<close> attribute, whether its interface has a
  \<^verbatim>\<open>name\<close> property, what \<^verbatim>\<open>value\<close> reads now, and what assigning to \<^verbatim>\<open>value\<close> does.
\<close>

record element =
  name_attr :: "string option"
  reflects_name :: bool
  value_prop :: jsval
  value_setter :: "jsval \<Rightarrow> string \<Rightarrow> error + jsval \<times> string"

datatype dom = Text string | Element element "dom list"

record component =
  shadowRoot :: "dom list"
  attributes :: "string \<rightharpoonup> string"
  subscribers :: "(string \<rightharpoonup> ref list) option"
  observedAttributes :: "string list"

text \<open>
  The log is an observer's record of what a call did, in the order it did it: each
  assignment to a property of a node (the element's owner and its position when the loop
  started), and each invocation of \<^verbatim>\<open>attributeChangedCallback\<close> made from inside the class
  or by the host (receiver, name, old value, new value, source). The code never reads it.
\<close>

datatype event =
    SetTextContent ref "nat list" jsval
  | SetValue ref "nat list" jsval
  | Callback ref string jsval jsval "ref option"

record world =
  heap :: "ref \<Rightarrow> component"
  log :: "event list"

text \<open>
  A call returns a value or throws; either way the mutations it made stay, so both
  outcomes carry the world.
\<close>

datatype 'a outcome = Returned 'a world | Threw error world

fun world_of :: "'a outcome \<Rightarrow> world" where
  "world_of (Returned _ w) = w"
| "world_of (Threw _ w) = w"

fun returned :: "'a outcome \<Rightarrow> bool" where
  "returned (Returned _ _) = True"
| "returned (Threw _ _) = False"

fun thrown :: "'a outcome \<Rightarrow> error option" where
  "thrown (Returned _ _) = None"
| "thrown (Threw e _) = Some e"

definition emit :: "event \<Rightarrow> world \<Rightarrow> world" where
  "emit e w = w\<lparr>log := log w @ [e]\<rparr>"

definition set_component :: "ref \<Rightarrow> component \<Rightarrow> world \<Rightarrow> world" where
  "set_component r c w = w\<lparr>heap := (heap w)(r := c)\<rparr>"

subsection \<open>Text content\<close>

fun text_of :: "dom \<Rightarrow> string" where
  "text_of (Text s) = s"
| "text_of (Element e cs) = concat (map text_of cs)"

text \<open>The string that an assignment to \<^verbatim>\<open>textContent\<close> stores.\<close>

fun text_value :: "jsval \<Rightarrow> string" where
  "text_value Undefined = []"
| "text_value Null = []"
| "text_value (Str s) = s"

definition text_children :: "string \<Rightarrow> dom list" where
  "text_children s = (if s = [] then [] else [Text s])"

text \<open>All elements of a tree, each with its subtree, in document order.\<close>

fun elements :: "dom \<Rightarrow> dom list" where
  "elements (Text s) = []"
| "elements (Element e cs) = Element e cs # concat (map elements cs)"

definition elements_of :: "dom list \<Rightarrow> dom list" where
  "elements_of forest = concat (map elements forest)"

subsection \<open>Property reads on a plain object\<close>

text \<open>
  \<^verbatim>\<open>this.subscribers = {}\<close> creates a plain object. Reading \<^verbatim>\<open>obj[k]\<close> gives the own
  property when there is one; otherwise it gives what \<^verbatim>\<open>Object.prototype\<close> holds under
  \<^verbatim>\<open>k\<close> (a function, or the prototype itself for \<^verbatim>\<open>__proto__\<close>: truthy, not
  \<^verbatim>\<open>undefined\<close>, and with no \<^verbatim>\<open>push\<close> or \<^verbatim>\<open>forEach\<close>), and \<^verbatim>\<open>undefined\<close> for every
  other key.
\<close>

datatype 'a property = Absent | Own 'a | Inherited

definition object_prototype_keys :: "string list" where
  "object_prototype_keys =
     [''constructor'', ''__proto__'', ''hasOwnProperty'', ''isPrototypeOf'',
      ''propertyIsEnumerable'', ''toLocaleString'', ''toString'', ''valueOf'',
      ''__defineGetter__'', ''__defineSetter__'', ''__lookupGetter__'',
      ''__lookupSetter__'']"

definition get_prop :: "(string \<rightharpoonup> 'a) \<Rightarrow> string \<Rightarrow> 'a property" where
  "get_prop obj k =
     (case obj k of
        Some v \<Rightarrow> Own v
      | None \<Rightarrow> if k \<in> set object_prototype_keys then Inherited else Absent)"

subsection \<open>The selector\<close>

text \<open>
  Line 68 asks the shadow root for the elements matching the selector text
  \<^verbatim>\<open>[name="bind-\<close> \<^emph>\<open>name\<close> \<^verbatim>\<open>"]\<close>. A selection says, for a position in the tree and the
  element there, whether the element is selected.
\<close>

type_synonym selection = "nat list \<Rightarrow> element \<Rightarrow> bool"

type_synonym engine = "string \<Rightarrow> dom list \<Rightarrow> error + (nat list \<Rightarrow> bool)"

definition css_special :: "char list" where
  "css_special = [CHR 0x22, CHR 0x5C, CHR 0x0A, CHR 0x0D, CHR 0x0C, CHR 0x00]"

definition css_plain :: "string \<Rightarrow> bool" where
  "css_plain name = list_all (\<lambda>c. c \<notin> set css_special) name"

definition selector_text :: "string \<Rightarrow> string" where
  "selector_text name = ''[name='' @ [CHR 0x22] @ ''bind-'' @ name @ [CHR 0x22] @ '']''"

definition by_name :: "string \<Rightarrow> selection" where
  "by_name s = (\<lambda>p e. name_attr e = Some s)"

text \<open>
  \<^verbatim>\<open>querySelectorAll\<close> with that text: for a plain name, the elements named \<^verbatim>\<open>bind-\<close> plus
  the name; for any other name, what the host's engine answers for the text on this tree,
  a \<^verbatim>\<open>SyntaxError\<close> or a set of positions.
\<close>

definition query :: "engine \<Rightarrow> string \<Rightarrow> dom list \<Rightarrow> error + selection" where
  "query host name forest =
     (if css_plain name then Inr (by_name (''bind-'' @ name))
      else case host (selector_text name) forest of
             Inl e \<Rightarrow> Inl e
           | Inr positions \<Rightarrow> Inr (\<lambda>p e. positions p))"

subsection \<open>The loop over the selected elements\<close>

text \<open>
  Lines 69 to 72. The list of selected elements is fixed before the loop, in document
  order. Assigning the text content of an element removes what was below it, so the
  selected elements that were below it are out of the tree when the loop reaches them:
  the two assignments are still made on them (\<^verbatim>\<open>detached_node\<close>), and an exception of a
  \<^verbatim>\<open>value\<close> setter still ends the loop, but the tree does not show them. On an element in
  the tree, the first assignment leaves the text of the new value as the only child, and
  the second gives the \<^verbatim>\<open>value\<close> setter the new value and that text. The result is the
  exception that ended the loop, if any, the tree, and what was logged.
\<close>

fun detached_node :: "selection \<Rightarrow> ref \<Rightarrow> jsval \<Rightarrow> nat list \<Rightarrow> dom \<Rightarrow> error option \<times> event list"
and detached_forest ::
  "selection \<Rightarrow> ref \<Rightarrow> jsval \<Rightarrow> nat list \<Rightarrow> nat \<Rightarrow> dom list \<Rightarrow> error option \<times> event list" where
  "detached_node sel this v p (Text s) = (None, [])"
| "detached_node sel this v p (Element e cs) =
     (if sel p e then
        (case value_setter e v (text_value v) of
           Inl err \<Rightarrow> (Some err, [SetTextContent this p v])
         | Inr r \<Rightarrow>
             (case detached_forest sel this v p 0 cs of
                (x, ev) \<Rightarrow> (x, [SetTextContent this p v, SetValue this p v] @ ev)))
      else detached_forest sel this v p 0 cs)"
| "detached_forest sel this v p i [] = (None, [])"
| "detached_forest sel this v p i (n # ns) =
     (case detached_node sel this v (p @ [i]) n of
        (Some err, ev) \<Rightarrow> (Some err, ev)
      | (None, ev) \<Rightarrow>
          (case detached_forest sel this v p (Suc i) ns of
             (x, ev') \<Rightarrow> (x, ev @ ev')))"

fun bind_node ::
  "selection \<Rightarrow> ref \<Rightarrow> jsval \<Rightarrow> nat list \<Rightarrow> dom \<Rightarrow> error option \<times> dom \<times> event list"
and bind_forest ::
  "selection \<Rightarrow> ref \<Rightarrow> jsval \<Rightarrow> nat list \<Rightarrow> nat \<Rightarrow> dom list \<Rightarrow> error option \<times> dom list \<times> event list" where
  "bind_node sel this v p (Text s) = (None, Text s, [])"
| "bind_node sel this v p (Element e cs) =
     (if sel p e then
        (case value_setter e v (text_value v) of
           Inl err \<Rightarrow>
             (Some err, Element e (text_children (text_value v)), [SetTextContent this p v])
         | Inr (r, t) \<Rightarrow>
             (case detached_forest sel this v p 0 cs of
                (x, ev) \<Rightarrow>
                  (x, Element (e\<lparr>value_prop := r\<rparr>) (text_children t),
                   [SetTextContent this p v, SetValue this p v] @ ev)))
      else
        (case bind_forest sel this v p 0 cs of
           (x, cs', ev) \<Rightarrow> (x, Element e cs', ev)))"
| "bind_forest sel this v p i [] = (None, [], [])"
| "bind_forest sel this v p i (n # ns) =
     (case bind_node sel this v (p @ [i]) n of
        (Some err, n', ev) \<Rightarrow> (Some err, n' # ns, ev)
      | (None, n', ev) \<Rightarrow>
          (case bind_forest sel this v p (Suc i) ns of
             (x, ns', ev') \<Rightarrow> (x, n' # ns', ev @ ev')))"

subsection \<open>\<^verbatim>\<open>attributeChangedCallback\<close>\<close>

fun forEach :: "(world \<Rightarrow> 'a \<Rightarrow> unit outcome) \<Rightarrow> 'a list \<Rightarrow> world \<Rightarrow> unit outcome" where
  "forEach f [] w = Returned () w"
| "forEach f (x # xs) w =
     (case f w x of
        Returned _ w' \<Rightarrow> forEach f xs w'
      | Threw e w' \<Rightarrow> Threw e w')"

definition store_forest :: "ref \<Rightarrow> dom list \<Rightarrow> event list \<Rightarrow> world \<Rightarrow> world" where
  "store_forest this forest ev w =
     \<lparr>heap = (heap w)(this := (heap w this)\<lparr>shadowRoot := forest\<rparr>), log = log w @ ev\<rparr>"

text \<open>
  Lines 61 to 77. The first argument is the host's selector engine. The second is the
  number of nested activations the host's stack still has room for: a subscriber's
  callback runs one level deeper, and a call with no room left throws \<^verbatim>\<open>RangeError\<close> (a
  cycle of subscribers overflows the stack). The test \<^verbatim>\<open>newValue === oldValue\<close> is equality
  of values. An exception of the selector or of a \<^verbatim>\<open>value\<close> setter leaves the callback at
  once. \<^verbatim>\<open>this.subscribers && this.subscribers[name]\<close> is false when there is no
  \<^verbatim>\<open>subscribers\<close> object or the read gives \<^verbatim>\<open>undefined\<close>; an inherited property passes the
  test and has no \<^verbatim>\<open>forEach\<close>. Each subscriber's callback gets the same name and values
  and \<^verbatim>\<open>this\<close> as source.
\<close>

primrec attributeChangedCallback ::
  "engine \<Rightarrow> nat \<Rightarrow> world \<Rightarrow> ref \<Rightarrow> string \<Rightarrow> jsval \<Rightarrow> jsval \<Rightarrow> ref option \<Rightarrow> unit outcome" where
  "attributeChangedCallback host 0 w this name oldValue newValue source = Threw RangeError w"
| "attributeChangedCallback host (Suc depth) w this name oldValue newValue source =
     (if newValue = oldValue then Returned () w
      else
        case query host name (shadowRoot (heap w this)) of
          Inl e \<Rightarrow> Threw e w
        | Inr sel \<Rightarrow>
            (case bind_forest sel this newValue [] 0 (shadowRoot (heap w this)) of
               (Some e, forest, ev) \<Rightarrow> Threw e (store_forest this forest ev w)
             | (None, forest, ev) \<Rightarrow>
                 let w1 = store_forest this forest ev w in
                 case subscribers (heap w1 this) of
                   None \<Rightarrow> Returned () w1
                 | Some subs \<Rightarrow>
                     (case get_prop subs name of
                        Absent \<Rightarrow> Returned () w1
                      | Inherited \<Rightarrow> Threw TypeError w1
                      | Own registered \<Rightarrow>
                          forEach
                            (\<lambda>w' subscriber.
                               attributeChangedCallback host depth
                                 (emit (Callback subscriber name oldValue newValue (Some this)) w')
                                 subscriber name oldValue newValue (Some this))
                            registered w1)))"

subsection \<open>\<^verbatim>\<open>observeAttribute\<close>\<close>

text \<open>
  Lines 79 to 88. The \<^verbatim>\<open>subscribers\<close> object is created when it is \<^verbatim>\<open>undefined\<close>; an
  empty list is stored under the name when the read gives \<^verbatim>\<open>undefined\<close>; then the
  subscriber is pushed onto what the read gives, and \<^verbatim>\<open>this\<close> is returned. An inherited
  property is not \<^verbatim>\<open>undefined\<close> and has no \<^verbatim>\<open>push\<close>.
\<close>

definition observeAttribute :: "world \<Rightarrow> ref \<Rightarrow> string \<Rightarrow> ref \<Rightarrow> ref outcome" where
  "observeAttribute w this attributeName subscriber =
     (let c = heap w this;
          subs = (case subscribers c of None \<Rightarrow> Map.empty | Some m \<Rightarrow> m)
      in case get_prop subs attributeName of
           Inherited \<Rightarrow> Threw TypeError (set_component this (c\<lparr>subscribers := Some subs\<rparr>) w)
         | Absent \<Rightarrow>
             Returned this
               (set_component this
                  (c\<lparr>subscribers := Some (subs(attributeName \<mapsto> [] @ [subscriber]))\<rparr>) w)
         | Own registered \<Rightarrow>
             Returned this
               (set_component this
                  (c\<lparr>subscribers := Some (subs(attributeName \<mapsto> registered @ [subscriber]))\<rparr>) w))"

subsection \<open>Writing a \<^verbatim>\<open>data-\<close> attribute through \<^verbatim>\<open>dataset\<close>\<close>

definition lower_alpha :: "char list" where
  "lower_alpha = ''abcdefghijklmnopqrstuvwxyz''"

definition upper_alpha :: "char list" where
  "upper_alpha = ''ABCDEFGHIJKLMNOPQRSTUVWXYZ''"

definition is_lower :: "char \<Rightarrow> bool" where
  "is_lower c = (c \<in> set lower_alpha)"

definition is_upper :: "char \<Rightarrow> bool" where
  "is_upper c = (c \<in> set upper_alpha)"

definition to_lower :: "char \<Rightarrow> char" where
  "to_lower c = (case map_of (zip upper_alpha lower_alpha) c of Some l \<Rightarrow> l | None \<Rightarrow> c)"

fun hyphen_lower :: "string \<Rightarrow> bool" where
  "hyphen_lower (a # b # cs) = ((a = CHR ''-'' \<and> is_lower b) \<or> hyphen_lower (b # cs))"
| "hyphen_lower _ = False"

definition camel_to_kebab :: "string \<Rightarrow> string" where
  "camel_to_kebab key = concat (map (\<lambda>c. if is_upper c then [CHR ''-'', to_lower c] else [c]) key)"

text \<open>
  The characters the DOM standard refuses in an attribute name: tab, line feed, form feed,
  carriage return, space, NUL, \<^verbatim>\<open>/\<close>, \<^verbatim>\<open>=\<close> and \<^verbatim>\<open>>\<close>.
\<close>

definition attr_name_forbidden :: "char list" where
  "attr_name_forbidden =
     [CHR 0x09, CHR 0x0A, CHR 0x0C, CHR 0x0D, CHR 0x20, CHR 0x00, CHR ''/'', CHR ''='', CHR ''>'']"

definition valid_attribute_name :: "string \<Rightarrow> bool" where
  "valid_attribute_name n = (n \<noteq> [] \<and> list_all (\<lambda>c. c \<notin> set attr_name_forbidden) n)"

text \<open>
  The name of the attribute that \<^verbatim>\<open>dataset[key]\<close> stands for: a key with a hyphen before
  a lowercase letter is a \<^verbatim>\<open>SyntaxError\<close>; every uppercase letter becomes a hyphen and
  its lowercase letter; \<^verbatim>\<open>data-\<close> goes in front.
\<close>

definition dataset_name :: "string \<Rightarrow> error + string" where
  "dataset_name key =
     (if hyphen_lower key then Inl SyntaxError
      else
        let n = ''data-'' @ camel_to_kebab key in
        if valid_attribute_name n then Inr n else Inl InvalidCharacterError)"

text \<open>
  The keys for which \<^verbatim>\<open>dataset[key]\<close> is the attribute \<^verbatim>\<open>data-\<close> plus the key and the
  selector for \<^verbatim>\<open>data-\<close> plus the key is read as written: no uppercase letter, no hyphen
  before a lowercase letter, no character an attribute name may not have, no character
  that is special in a quoted string of a selector.
\<close>

definition plain_key :: "string \<Rightarrow> bool" where
  "plain_key key =
     (\<not> hyphen_lower key \<and>
      list_all (\<lambda>c. \<not> is_upper c \<and> c \<notin> set attr_name_forbidden \<and> c \<notin> set css_special) key)"

text \<open>
  \<^verbatim>\<open>this.dataset[key] = v\<close>. The attribute is written; when its name is one of the class's
  \<^verbatim>\<open>observedAttributes\<close> the host then calls \<^verbatim>\<open>attributeChangedCallback\<close> with the
  attribute's previous value (\<^verbatim>\<open>null\<close> when it had none) and no source. The host reports
  an exception of that callback instead of passing it on, so the assignment itself
  returns.
\<close>

definition dataset_set ::
  "engine \<Rightarrow> nat \<Rightarrow> world \<Rightarrow> ref \<Rightarrow> string \<Rightarrow> string \<Rightarrow> unit outcome" where
  "dataset_set host depth w this key v =
     (case dataset_name key of
        Inl e \<Rightarrow> Threw e w
      | Inr n \<Rightarrow>
          let c = heap w this;
              old = (case attributes c n of None \<Rightarrow> Null | Some x \<Rightarrow> Str x);
              w1 = set_component this (c\<lparr>attributes := (attributes c)(n \<mapsto> v)\<rparr>) w
          in if n \<in> set (observedAttributes c)
             then Returned ()
                    (world_of
                       (attributeChangedCallback host depth
                          (emit (Callback this n old (Str v) None) w1)
                          this n old (Str v) None))
             else Returned () w1)"

subsection \<open>The constructor\<close>

text \<open>
  Lines 27 to 46. A configuration is the list of its entries in the order \<^verbatim>\<open>for ... in\<close>
  visits them, with strings as values.
\<close>

text \<open>The loop \<^verbatim>\<open>for (const key in config)\<close>, over the configuration's entries in order.\<close>

fun init_config ::
  "engine \<Rightarrow> nat \<Rightarrow> ref \<Rightarrow> (string \<times> string) list \<Rightarrow> world \<Rightarrow> unit outcome" where
  "init_config host depth this [] w = Returned () w"
| "init_config host depth this ((key, v) # config) w =
     (case dataset_set host depth w this key v of
        Threw e w' \<Rightarrow> Threw e w'
      | Returned _ w1 \<Rightarrow>
          (case attributeChangedCallback host depth
                  (emit (Callback this (''data-'' @ key) Undefined (Str v) None) w1)
                  this (''data-'' @ key) Undefined (Str v) None of
             Threw e w' \<Rightarrow> Threw e w'
           | Returned _ w2 \<Rightarrow> init_config host depth this config w2))"

text \<open>
  \<^verbatim>\<open>this\<close> is the reference of the object being created. \<^verbatim>\<open>template\<close> is the content of
  the subclass's \<^verbatim>\<open>template\<close> (\<^verbatim>\<open>None\<close> when the subclass has none: reading
  \<^verbatim>\<open>.content\<close> of \<^verbatim>\<open>undefined\<close> throws), \<^verbatim>\<open>observed\<close> the subclass's
  \<^verbatim>\<open>observedAttributes\<close>. The last statement installs the listener \<^verbatim>\<open>changeListener\<close>
  below.
\<close>

definition new_component :: "string list \<Rightarrow> component" where
  "new_component observed =
     \<lparr>shadowRoot = [], attributes = Map.empty, subscribers = None,
      observedAttributes = observed\<rparr>"

definition constructor ::
  "engine \<Rightarrow> nat \<Rightarrow> world \<Rightarrow> ref \<Rightarrow> dom list option \<Rightarrow> string list \<Rightarrow> (string \<times> string) list
     \<Rightarrow> unit outcome" where
  "constructor host depth w this template observed config =
     (let w0 = set_component this (new_component observed) w in
      case template of
        None \<Rightarrow> Threw TypeError w0
      | Some content \<Rightarrow>
          init_config host depth this config
            (set_component this ((new_component observed)\<lparr>shadowRoot := content\<rparr>) w0))"

subsection \<open>The listener for \<^verbatim>\<open>change\<close> events\<close>

text \<open>
  \<^verbatim>\<open>event.target.name\<close>: the \<^verbatim>\<open>name\<close> attribute (the empty string when there is none) on
  an element whose interface reflects it, \<^verbatim>\<open>undefined\<close> on any other element.
\<close>

definition name_property :: "element \<Rightarrow> jsval" where
  "name_property e =
     (if reflects_name e then Str (case name_attr e of None \<Rightarrow> [] | Some s \<Rightarrow> s) else Undefined)"

text \<open>
  \<^verbatim>\<open>name.match(/^(?:bind-data-)([a-z]*)$/)\<close>: the capture group when the whole name is
  \<^verbatim>\<open>bind-data-\<close> followed by lowercase letters only, no match otherwise.
\<close>

definition match_bind_data :: "string \<Rightarrow> string option" where
  "match_bind_data name =
     (if take 10 name = ''bind-data-'' \<and> list_all is_lower (drop 10 name)
      then Some (drop 10 name) else None)"

text \<open>What a value becomes when it is assigned to an attribute.\<close>

fun ToString :: "jsval \<Rightarrow> string" where
  "ToString Undefined = ''undefined''"
| "ToString Null = ''null''"
| "ToString (Str s) = s"

text \<open>
  Lines 36 to 45: the listener, as the host calls it for a \<^verbatim>\<open>change\<close> event that reaches
  the shadow root. \<^verbatim>\<open>target\<close> is the element the event was dispatched from; the listener
  reads its \<^verbatim>\<open>name\<close> property and its value, and assigns the value to \<^verbatim>\<open>dataset\<close>, which
  stores its string.
\<close>

definition changeListener :: "engine \<Rightarrow> nat \<Rightarrow> world \<Rightarrow> ref \<Rightarrow> element \<Rightarrow> unit outcome" where
  "changeListener host depth w this target =
     (case name_property target of
        Undefined \<Rightarrow> Returned () w
      | Null \<Rightarrow> Returned () w
      | Str name \<Rightarrow>
          if name = [] then Returned () w
          else
            (case match_bind_data name of
               None \<Rightarrow> Returned () w
             | Some key \<Rightarrow>
                 if key = [] then Returned () w
                 else dataset_set host depth w this key (ToString (value_prop target))))"

subsection \<open>What a notification leaves alone, and what it establishes\<close>

text \<open>
  A tree with everything cut away that the loop for the elements named \<^verbatim>\<open>s\<close> may write:
  the children and the value of every such element. Two trees with the same pruning differ
  only inside elements named \<^verbatim>\<open>s\<close>.
\<close>

fun prune :: "string \<Rightarrow> dom \<Rightarrow> dom" where
  "prune s (Text t) = Text t"
| "prune s (Element e cs) =
     (if name_attr e = Some s then Element (e\<lparr>value_prop := Undefined\<rparr>) []
      else Element e (map (prune s) cs))"

text \<open>
  Every element named \<^verbatim>\<open>s\<close> in the tree shows \<^verbatim>\<open>v\<close>: its value and its children are what
  assigning \<^verbatim>\<open>v\<close> to \<^verbatim>\<open>textContent\<close> and then to \<^verbatim>\<open>value\<close> leaves.
\<close>

fun bound :: "string \<Rightarrow> jsval \<Rightarrow> dom \<Rightarrow> bool" where
  "bound s v (Text t) = True"
| "bound s v (Element e cs) =
     (if name_attr e = Some s
      then (case value_setter e v (text_value v) of
              Inl err \<Rightarrow> False
            | Inr (r, t) \<Rightarrow> value_prop e = r \<and> cs = text_children t)
      else list_all (bound s v) cs)"

text \<open>No element named \<^verbatim>\<open>s\<close> in the tree has a \<^verbatim>\<open>value\<close> setter that throws on \<^verbatim>\<open>v\<close>.\<close>

fun accepts :: "string \<Rightarrow> jsval \<Rightarrow> dom \<Rightarrow> bool" where
  "accepts s v (Text t) = True"
| "accepts s v (Element e cs) =
     ((if name_attr e = Some s then \<not> isl (value_setter e v (text_value v)) else True) \<and>
      list_all (accepts s v) cs)"

text \<open>
  Two worlds that differ at most inside the elements named \<^verbatim>\<open>s\<close> of their shadow trees.
\<close>

definition same_outside :: "string \<Rightarrow> world \<Rightarrow> world \<Rightarrow> bool" where
  "same_outside s w w' =
     (\<forall>r. attributes (heap w' r) = attributes (heap w r) \<and>
          subscribers (heap w' r) = subscribers (heap w r) \<and>
          observedAttributes (heap w' r) = observedAttributes (heap w r) \<and>
          map (prune s) (shadowRoot (heap w' r)) = map (prune s) (shadowRoot (heap w r)))"

text \<open>The subscriber list an element holds for a name (none when nothing was registered).\<close>

definition registered_for :: "component \<Rightarrow> string \<Rightarrow> ref list option" where
  "registered_for c name = (case subscribers c of None \<Rightarrow> None | Some subs \<Rightarrow> subs name)"

definition subscriber_list :: "component \<Rightarrow> string \<Rightarrow> ref list" where
  "subscriber_list c name = (case registered_for c name of None \<Rightarrow> [] | Some registered \<Rightarrow> registered)"

text \<open>
  A rank that falls along every subscription for \<^verbatim>\<open>name\<close>, and no list for \<^verbatim>\<open>name\<close> that
  is an inherited property: the subscriptions for \<^verbatim>\<open>name\<close> form no cycle.
\<close>

definition well_ranked :: "(ref \<Rightarrow> nat) \<Rightarrow> string \<Rightarrow> world \<Rightarrow> bool" where
  "well_ranked rank name w =
     (\<forall>r. (case subscribers (heap w r) of
                None \<Rightarrow> True
              | Some subs \<Rightarrow> get_prop subs name \<noteq> Inherited) \<and>
          list_all (\<lambda>s. rank s < rank r) (subscriber_list (heap w r) name))"

text \<open>
  The world with the attribute \<^verbatim>\<open>n\<close> of \<^verbatim>\<open>this\<close> written, and the value the attribute had
  before (\<^verbatim>\<open>null\<close> when it had none).
\<close>

definition written :: "world \<Rightarrow> ref \<Rightarrow> string \<Rightarrow> string \<Rightarrow> world" where
  "written w this n v =
     set_component this ((heap w this)\<lparr>attributes := (attributes (heap w this))(n \<mapsto> v)\<rparr>) w"

definition previous :: "world \<Rightarrow> ref \<Rightarrow> string \<Rightarrow> jsval" where
  "previous w this n = (case attributes (heap w this) n of None \<Rightarrow> Null | Some x \<Rightarrow> Str x)"

subsection \<open>Elements and pages to run the code on\<close>

text \<open>
  An ordinary element (a heading, a paragraph): no \<^verbatim>\<open>name\<close> property, and \<^verbatim>\<open>value\<close> is a
  property of the object like any other.
\<close>

definition plain_setter :: "jsval \<Rightarrow> string \<Rightarrow> error + jsval \<times> string" where
  "plain_setter v t = Inr (v, t)"

definition ordinary :: "string option \<Rightarrow> element" where
  "ordinary name =
     \<lparr>name_attr = name, reflects_name = False, value_prop = Undefined,
      value_setter = plain_setter\<rparr>"

text \<open>
  A text input holding \<^verbatim>\<open>s\<close>: the setter of \<^verbatim>\<open>value\<close> turns \<^verbatim>\<open>null\<close> into the empty string,
  any other value into its string, and drops line feeds and carriage returns.
\<close>

fun input_string :: "jsval \<Rightarrow> string" where
  "input_string Null = []"
| "input_string Undefined = ''undefined''"
| "input_string (Str s) = s"

definition text_input_setter :: "jsval \<Rightarrow> string \<Rightarrow> error + jsval \<times> string" where
  "text_input_setter v t =
     Inr (Str (filter (\<lambda>c. c \<noteq> CHR 0x0A \<and> c \<noteq> CHR 0x0D) (input_string v)), t)"

definition text_input :: "string option \<Rightarrow> string \<Rightarrow> element" where
  "text_input name s =
     \<lparr>name_attr = name, reflects_name = True, value_prop = Str s,
      value_setter = text_input_setter\<rparr>"

text \<open>A file input: assigning anything but the empty string to \<^verbatim>\<open>value\<close> throws.\<close>

definition file_input_setter :: "jsval \<Rightarrow> string \<Rightarrow> error + jsval \<times> string" where
  "file_input_setter v t =
     (if input_string v = [] then Inr (Str [], t) else Inl InvalidStateError)"

definition file_input :: "string option \<Rightarrow> element" where
  "file_input name =
     \<lparr>name_attr = name, reflects_name = True, value_prop = Str [],
      value_setter = file_input_setter\<rparr>"

text \<open>
  An output element with no children: its value is its text content, and assigning to
  \<^verbatim>\<open>value\<close> replaces its children by the string of what is assigned.
\<close>

definition output_setter :: "jsval \<Rightarrow> string \<Rightarrow> error + jsval \<times> string" where
  "output_setter v t = Inr (Str (ToString v), ToString v)"

definition output_element :: "string option \<Rightarrow> element" where
  "output_element name =
     \<lparr>name_attr = name, reflects_name = True, value_prop = Str [],
      value_setter = output_setter\<rparr>"

text \<open>A host whose engine refuses every selector text the model leaves to it.\<close>

definition strict_host :: engine where
  "strict_host text forest = Inl SyntaxError"

text \<open>
  Element 0 shows \<^verbatim>\<open>data-spam\<close> in a heading and an input and \<^verbatim>\<open>data-eggs\<close> in a
  paragraph. Elements 1, 2 and 3 subscribed to its \<^verbatim>\<open>data-spam\<close>, in this order, and
  element 4 subscribed to element 1.
\<close>

definition h1_node :: dom where
  "h1_node = Element (ordinary (Some ''bind-data-spam'')) []"

definition input_node :: dom where
  "input_node = Element (text_input (Some ''bind-data-spam'') []) []"

definition p_node :: dom where
  "p_node = Element (ordinary (Some ''bind-data-eggs'')) [Text ''two'']"

definition div_node :: dom where
  "div_node = Element (ordinary None) [Text ''hello'']"

definition publisher :: component where
  "publisher =
     \<lparr>shadowRoot = [h1_node, input_node, p_node],
      attributes = Map.empty,
      subscribers = Some [''data-spam'' \<mapsto> [1, 2, 3]],
      observedAttributes = [''data-spam'', ''data-eggs'']\<rparr>"

definition relay :: component where
  "relay =
     \<lparr>shadowRoot = [h1_node],
      attributes = Map.empty,
      subscribers = Some [''data-spam'' \<mapsto> [4]],
      observedAttributes = [''data-spam'']\<rparr>"

definition leaf :: component where
  "leaf =
     \<lparr>shadowRoot = [div_node, input_node],
      attributes = Map.empty,
      subscribers = None,
      observedAttributes = []\<rparr>"

definition page :: world where
  "page = \<lparr>heap = (\<lambda>_. leaf)(0 := publisher, 1 := relay), log = []\<rparr>"

text \<open>What reading \<^verbatim>\<open>textContent\<close> of a node gives.\<close>

definition text_content :: "dom \<Rightarrow> jsval" where
  "text_content n = Str (text_of n)"

text \<open>The \<^verbatim>\<open>name\<close> attribute of a node, and what reading its \<^verbatim>\<open>value\<close> gives.\<close>

fun name_of :: "dom \<Rightarrow> string option" where
  "name_of (Text t) = None"
| "name_of (Element e cs) = name_attr e"

fun value_of :: "dom \<Rightarrow> jsval" where
  "value_of (Text t) = Undefined"
| "value_of (Element e cs) = value_prop e"

text \<open>Whether a tree has an element named \<^verbatim>\<open>s\<close> anywhere in it.\<close>

fun has_named :: "string \<Rightarrow> dom \<Rightarrow> bool" where
  "has_named s (Text t) = False"
| "has_named s (Element e cs) = (name_attr e = Some s \<or> list_ex (has_named s) cs)"

text \<open>
  A paragraph bound to \<^verbatim>\<open>data-eggs\<close> that holds a span bound to \<^verbatim>\<open>data-spam\<close>, and a
  division bound to \<^verbatim>\<open>data-spam\<close> that holds an emphasis with no binding.
\<close>

definition span_node :: dom where
  "span_node = Element (ordinary (Some ''bind-data-spam'')) [Text ''old'']"

definition outer_node :: dom where
  "outer_node = Element (ordinary (Some ''bind-data-eggs'')) [span_node]"

definition em_node :: dom where
  "em_node = Element (ordinary (Some ''note'')) [Text ''x'']"

definition holder_node :: dom where
  "holder_node = Element (ordinary (Some ''bind-data-spam'')) [em_node]"

definition nested_page :: world where
  "nested_page =
     \<lparr>heap = (\<lambda>_.
        \<lparr>shadowRoot = [outer_node, holder_node],
         attributes = Map.empty,
         subscribers = None,
         observedAttributes = [''data-spam'']\<rparr>),
      log = []\<rparr>"

text \<open>
  A form with one element: a heading bound to \<^verbatim>\<open>data-spam\<close> that shows an earlier value
  and an input bound to it into which \<^verbatim>\<open>42\<close> was typed. \<^verbatim>\<open>observed\<close> is the class's
  \<^verbatim>\<open>observedAttributes\<close>, \<^verbatim>\<open>attrs\<close> the attributes the element has.
\<close>

definition heading_node :: dom where
  "heading_node = Element (ordinary (Some ''bind-data-spam'')) [Text ''old'']"

definition typed_input :: element where
  "typed_input = text_input (Some ''bind-data-spam'') ''42''"

definition form :: "string list \<Rightarrow> (string \<rightharpoonup> string) \<Rightarrow> dom list \<Rightarrow> world" where
  "form observed attrs forest =
     \<lparr>heap = (\<lambda>_.
        \<lparr>shadowRoot = forest, attributes = attrs, subscribers = None,
         observedAttributes = observed\<rparr>),
      log = []\<rparr>"

definition form_nodes :: "dom list" where
  "form_nodes = [heading_node, Element typed_input []]"

text \<open>The same form with a file input bound to \<^verbatim>\<open>data-spam\<close> in front.\<close>

definition upload_nodes :: "dom list" where
  "upload_nodes = [Element (file_input (Some ''bind-data-spam'')) [], heading_node,
                   Element typed_input []]"

text \<open>
  A heading named \<^verbatim>\<open>bind-data-spam\<close> whose \<^verbatim>\<open>value\<close> is \<^verbatim>\<open>42\<close>, as an earlier notification
  leaves it.
\<close>

definition notified_heading :: element where
  "notified_heading = (ordinary (Some ''bind-data-spam''))\<lparr>value_prop := Str ''42''\<rparr>"

text \<open>
  The class of the header comment, which declares \<^verbatim>\<open>somethingElse\<close> among its observed
  attributes, with a heading named \<^verbatim>\<open>bind-somethingElse\<close> and an input named
  \<^verbatim>\<open>bind-data-high-score\<close> in its template.
\<close>

definition else_node :: dom where
  "else_node = Element (ordinary (Some ''bind-somethingElse'')) [Text ''old'']"

definition score_node :: dom where
  "score_node = Element (text_input (Some ''bind-data-high-score'') ''0'') []"

definition docs_page :: world where
  "docs_page =
     form [''data-spam'', ''data-eggs'', ''data-ham'', ''somethingElse''] Map.empty
       [else_node, score_node]"

text \<open>A form whose only element is an output element bound to \<^verbatim>\<open>data-spam\<close>.\<close>

definition output_page :: world where
  "output_page = form [] Map.empty [Element (output_element (Some ''bind-data-spam'')) []]"

text \<open>
  A name with an escape in it: \<^verbatim>\<open>data-\73 pam\<close>, with a backslash. In the quoted string of
  the selector the escape stands for the letter \<^verbatim>\<open>s\<close>, so the selector text made from this
  name selects the elements named \<^verbatim>\<open>bind-data-spam\<close>. \<^verbatim>\<open>escape_host\<close> is an engine that
  answers this one text so and refuses every other one. The page has a heading whose
  \<^verbatim>\<open>name\<close> attribute is \<^verbatim>\<open>bind-\<close> plus the name as it is, and a heading named
  \<^verbatim>\<open>bind-data-spam\<close>.
\<close>

definition escaped_name :: string where
  "escaped_name = ''data-'' @ [CHR 0x5C] @ ''73 pam''"

fun node_at :: "dom list \<Rightarrow> nat list \<Rightarrow> dom option" where
  "node_at forest [] = None"
| "node_at forest (i # p) =
     (if i < length forest
      then (if p = [] then Some (forest ! i)
            else case forest ! i of Text t \<Rightarrow> None | Element e cs \<Rightarrow> node_at cs p)
      else None)"

definition escape_host :: engine where
  "escape_host text forest =
     (if text = selector_text escaped_name
      then Inr (\<lambda>p. case node_at forest p of
                       Some (Element e cs) \<Rightarrow> name_attr e = Some ''bind-data-spam''
                     | _ \<Rightarrow> False)
      else Inl SyntaxError)"

definition literal_node :: dom where
  "literal_node = Element (ordinary (Some (''bind-'' @ escaped_name))) [Text ''old'']"

definition escape_page :: world where
  "escape_page = form [] Map.empty [literal_node, heading_node]"

section \<open>Properties\<close>

subsection \<open>The loop over the selected elements\<close>

lemma bind_prune:
  "sel = by_name s \<Longrightarrow> prune s (fst (snd (bind_node sel this v p n))) = prune s n"
  "sel = by_name s \<Longrightarrow>
   map (prune s) (fst (snd (bind_forest sel this v p i ns))) = map (prune s) ns"
  by (induction sel this v p n and sel this v p i ns rule: bind_node_bind_forest.induct)
    (auto simp: by_name_def split: prod.splits sum.splits option.splits)

lemma bind_bound:
  "sel = by_name s \<Longrightarrow> fst (bind_node sel this v p n) = None \<Longrightarrow>
   bound s v (fst (snd (bind_node sel this v p n)))"
  "sel = by_name s \<Longrightarrow> fst (bind_forest sel this v p i ns) = None \<Longrightarrow>
   list_all (bound s v) (fst (snd (bind_forest sel this v p i ns)))"
  by (induction sel this v p n and sel this v p i ns rule: bind_node_bind_forest.induct)
    (auto simp: by_name_def split: prod.splits sum.splits option.splits)

lemma detached_accepts:
  "sel = by_name s \<Longrightarrow> accepts s v n \<Longrightarrow> fst (detached_node sel this v p n) = None"
  "sel = by_name s \<Longrightarrow> list_all (accepts s v) ns \<Longrightarrow>
   fst (detached_forest sel this v p i ns) = None"
  by (induction sel this v p n and sel this v p i ns rule: detached_node_detached_forest.induct)
    (auto simp: by_name_def split: prod.splits sum.splits option.splits)

lemma detached_forest_accepts:
  "detached_forest (\<lambda>p e. name_attr e = Some s) this v p i ns = (x, ev) \<Longrightarrow>
   list_all (accepts s v) ns \<Longrightarrow> x = None"
  using detached_accepts(2) [of "by_name s" s v ns this p i] by (simp add: by_name_def)

lemma bind_accepts:
  "sel = by_name s \<Longrightarrow> accepts s v n \<Longrightarrow> fst (bind_node sel this v p n) = None"
  "sel = by_name s \<Longrightarrow> list_all (accepts s v) ns \<Longrightarrow>
   fst (bind_forest sel this v p i ns) = None"
  by (induction sel this v p n and sel this v p i ns rule: bind_node_bind_forest.induct)
    (auto simp: by_name_def dest: detached_forest_accepts split: prod.splits sum.splits option.splits)

lemma accepts_text_children [simp]: "list_all (accepts s v) (text_children t)"
  by (simp add: text_children_def)

lemma bound_text_children [simp]: "list_all (bound s v) (text_children t)"
  by (simp add: text_children_def)

lemma bind_keeps_accepts:
  "accepts s' v' n \<Longrightarrow> accepts s' v' (fst (snd (bind_node sel this v p n)))"
  "list_all (accepts s' v') ns \<Longrightarrow>
   list_all (accepts s' v') (fst (snd (bind_forest sel this v p i ns)))"
  by (induction sel this v p n and sel this v p i ns rule: bind_node_bind_forest.induct)
    (auto split: prod.splits sum.splits option.splits)

lemma bind_forest_text_children [simp]:
  "bind_forest sel this v p i (text_children t) = (None, text_children t, [])"
  by (simp add: text_children_def)

lemma bind_bound_other:
  "sel = by_name s' \<Longrightarrow> s' \<noteq> s \<Longrightarrow> bound s u n \<Longrightarrow>
   bound s u (fst (snd (bind_node sel this v p n)))"
  "sel = by_name s' \<Longrightarrow> s' \<noteq> s \<Longrightarrow> list_all (bound s u) ns \<Longrightarrow>
   list_all (bound s u) (fst (snd (bind_forest sel this v p i ns)))"
  by (induction sel this v p n and sel this v p i ns rule: bind_node_bind_forest.induct)
    (auto simp: by_name_def split: prod.splits sum.splits option.splits)

lemma text_of_text_children [simp]: "concat (map text_of (text_children t)) = t"
  by (simp add: text_children_def)

lemma bound_elements:
  "bound s v n \<Longrightarrow> Element e cs \<in> set (elements n) \<Longrightarrow> name_attr e = Some s \<Longrightarrow>
   value_setter e v (text_value v) = Inr (value_prop e, text_of (Element e cs))"
proof (induction n)
  case (Text t)
  then show ?case by simp
next
  case (Element e' cs')
  show ?case
  proof (cases "name_attr e' = Some s")
    case True
    with Element.prems(1) obtain t where cs': "cs' = text_children t"
      and v: "value_setter e' v (text_value v) = Inr (value_prop e', t)"
      by (auto split: sum.splits)
    from cs' have "concat (map elements cs') = []" by (simp add: text_children_def)
    with Element.prems(2) have "e = e'" "cs = cs'" by simp_all
    with cs' v show ?thesis by simp
  next
    case False
    with Element.prems(3) have "Element e cs \<noteq> Element e' cs'" by auto
    with Element.prems(2) obtain c where c: "c \<in> set cs'" and m: "Element e cs \<in> set (elements c)"
      by auto
    from False Element.prems(1) c have "bound s v c" by (simp add: list_all_iff)
    with Element.IH c m Element.prems(3) show ?thesis by blast
  qed
qed

subsection \<open>The footprint of a notification\<close>

lemma query_plain: "css_plain name \<Longrightarrow> query host name forest = Inr (by_name (''bind-'' @ name))"
  by (simp add: query_def)

lemma same_outside_refl: "same_outside s w w"
  by (simp add: same_outside_def)

lemma same_outside_trans:
  "same_outside s a b \<Longrightarrow> same_outside s b c \<Longrightarrow> same_outside s a c"
  by (simp add: same_outside_def)

lemma same_outside_emit: "same_outside s w (emit e w)"
  by (simp add: same_outside_def emit_def)

lemma same_outside_store_forest:
  "map (prune s) forest = map (prune s) (shadowRoot (heap w this)) \<Longrightarrow>
   same_outside s w (store_forest this forest ev w)"
  by (simp add: same_outside_def store_forest_def)

lemma forEach_invariant:
  assumes "\<And>w x. P w \<Longrightarrow> P (world_of (f w x))" and "P w"
  shows "P (world_of (forEach f xs w))"
  using assms(2)
proof (induction xs arbitrary: w)
  case Nil
  then show ?case by simp
next
  case (Cons x xs)
  show ?case
  proof (cases "f w x")
    case (Returned u w')
    with assms(1) [OF Cons.prems, of x] have "P w'" by simp
    then show ?thesis using Returned Cons.IH by simp
  next
    case (Threw e w')
    with assms(1) [OF Cons.prems, of x] show ?thesis by simp
  qed
qed

lemma forEach_returned_invariant:
  assumes "forEach f xs w = Returned () w'"
    and "\<And>w x w2. P w \<Longrightarrow> f w x = Returned () w2 \<Longrightarrow> P w2"
    and "P w"
  shows "P w'"
  using assms(1,3)
proof (induction xs arbitrary: w)
  case Nil
  then show ?case by simp
next
  case (Cons x xs)
  from Cons.prems(1) obtain w1 where 1: "f w x = Returned () w1"
    and 2: "forEach f xs w1 = Returned () w'"
    by (cases "f w x") auto
  from assms(2) [OF Cons.prems(2) 1] have "P w1" .
  with Cons.IH 2 show ?case by blast
qed

text \<open>
  The callback for a plain name changes nothing outside the elements the name selects,
  however it ends.
\<close>

lemma attributeChangedCallback_same_outside:
  assumes "css_plain name"
  shows "same_outside (''bind-'' @ name) w
           (world_of (attributeChangedCallback host depth w this name old new source))"
proof (induction depth arbitrary: w this source)
  case 0
  show ?case by (simp add: same_outside_refl)
next
  case (Suc depth)
  let ?s = "''bind-'' @ name"
  let ?b = "bind_forest (by_name ?s) this new [] 0 (shadowRoot (heap w this))"
  let ?w1 = "store_forest this (fst (snd ?b)) (snd (snd ?b)) w"
  have q: "query host name (shadowRoot (heap w this)) = Inr (by_name ?s)"
    using assms by (rule query_plain)
  have "map (prune ?s) (fst (snd ?b)) = map (prune ?s) (shadowRoot (heap w this))"
    by (rule bind_prune(2)) simp
  then have w1: "same_outside ?s w ?w1" by (rule same_outside_store_forest)
  have loop: "same_outside ?s w
       (world_of (forEach (\<lambda>w' subscriber.
            attributeChangedCallback host depth
              (emit (Callback subscriber name old new (Some this)) w')
              subscriber name old new (Some this)) registered ?w1))" for registered
  proof (rule forEach_invariant [where P = "same_outside ?s w"])
    fix w' :: world and x
    assume "same_outside ?s w w'"
    then have "same_outside ?s w (emit (Callback x name old new (Some this)) w')"
      by (blast intro: same_outside_trans same_outside_emit)
    then show "same_outside ?s w
        (world_of (attributeChangedCallback host depth
           (emit (Callback x name old new (Some this)) w') x name old new (Some this)))"
      by (blast intro: same_outside_trans Suc.IH)
  qed (rule w1)
  show ?case
    using w1 loop q
    by (cases ?b)
      (auto simp: Let_def same_outside_refl split: option.split property.split)
qed

lemma store_forest_heap:
  "shadowRoot (heap (store_forest this forest ev w) r)
     = (if r = this then forest else shadowRoot (heap w r))"
  "subscribers (heap (store_forest this forest ev w) r) = subscribers (heap w r)"
  "attributes (heap (store_forest this forest ev w) r) = attributes (heap w r)"
  "observedAttributes (heap (store_forest this forest ev w) r) = observedAttributes (heap w r)"
  "log (store_forest this forest ev w) = log w @ ev"
  by (simp_all add: store_forest_def)

lemma emit_heap [simp]: "heap (emit e w) = heap w"
  by (simp add: emit_def)

text \<open>
  Unfolding one activation for a plain name whose new value differs from the old one.
\<close>

lemma attributeChangedCallback_Suc_plain:
  assumes "css_plain name" and "new \<noteq> old"
    and "bind_forest (by_name (''bind-'' @ name)) this new [] 0 (shadowRoot (heap w this))
           = (x, forest, ev)"
  shows "attributeChangedCallback host (Suc depth) w this name old new source =
     (case x of
        Some e \<Rightarrow> Threw e (store_forest this forest ev w)
      | None \<Rightarrow>
          (case subscribers (heap w this) of
             None \<Rightarrow> Returned () (store_forest this forest ev w)
           | Some subs \<Rightarrow>
               (case get_prop subs name of
                  Absent \<Rightarrow> Returned () (store_forest this forest ev w)
                | Inherited \<Rightarrow> Threw TypeError (store_forest this forest ev w)
                | Own registered \<Rightarrow>
                    forEach
                      (\<lambda>w' subscriber.
                         attributeChangedCallback host depth
                           (emit (Callback subscriber name old new (Some this)) w')
                           subscriber name old new (Some this))
                      registered (store_forest this forest ev w))))"
  using assms by (simp add: query_plain Let_def store_forest_heap split: option.split)

text \<open>
  When the callback for a plain name returns, the elements it selects in the receiver's
  tree show the new value, and so do those of any tree that showed it before.
\<close>

lemma attributeChangedCallback_bound_returned:
  assumes "css_plain name"
    and "attributeChangedCallback host depth w x name old new source = Returned () w'"
    and "(x = c \<and> new \<noteq> old) \<or> list_all (bound (''bind-'' @ name) new) (shadowRoot (heap w c))"
  shows "list_all (bound (''bind-'' @ name) new) (shadowRoot (heap w' c))"
  using assms(2,3)
proof (induction depth arbitrary: w x source w')
  case 0
  then show ?case by simp
next
  case (Suc depth)
  let ?s = "''bind-'' @ name"
  show ?case
  proof (cases "new = old")
    case True
    with Suc.prems show ?thesis by auto
  next
    case False
    obtain e forest ev where b:
      "bind_forest (by_name ?s) x new [] 0 (shadowRoot (heap w x)) = (e, forest, ev)"
      by (cases "bind_forest (by_name ?s) x new [] 0 (shadowRoot (heap w x))") auto
    let ?w1 = "store_forest x forest ev w"
    note unfold = attributeChangedCallback_Suc_plain [OF assms(1) False b, of host depth source]
    from Suc.prems(1) unfold have none: "e = None" by (cases e) auto
    have p1: "list_all (bound ?s new) (shadowRoot (heap ?w1 c))"
    proof (cases "x = c")
      case True
      from bind_bound(2) [of "by_name ?s" ?s x new "[]" 0 "shadowRoot (heap w x)"] b none
      have "list_all (bound ?s new) forest" by simp
      with True show ?thesis by (simp add: store_forest_heap)
    next
      case False
      with Suc.prems(2) show ?thesis by (simp add: store_forest_heap)
    qed
    have step: "list_all (bound ?s new) (shadowRoot (heap w3 c))"
      if "list_all (bound ?s new) (shadowRoot (heap w2 c))"
        and "attributeChangedCallback host depth (emit (Callback y name old new (Some x)) w2)
               y name old new (Some x) = Returned () w3" for w2 y w3
      using Suc.IH [OF that(2)] that(1) by simp
    show ?thesis
    proof (cases "subscribers (heap w x)")
      case None
      with Suc.prems(1) unfold none have "w' = ?w1" by simp
      with p1 show ?thesis by simp
    next
      case (Some subs)
      show ?thesis
      proof (cases "get_prop subs name")
        case Absent
        with Some Suc.prems(1) unfold none have "w' = ?w1" by simp
        with p1 show ?thesis by simp
      next
        case Inherited
        with Some Suc.prems(1) unfold none show ?thesis by simp
      next
        case (Own registered)
        with Some Suc.prems(1) unfold none have
          "forEach (\<lambda>w' subscriber.
                 attributeChangedCallback host depth
                   (emit (Callback subscriber name old new (Some x)) w')
                   subscriber name old new (Some x)) registered ?w1 = Returned () w'"
          by simp
        then show ?thesis
          by (rule forEach_returned_invariant
                [where P = "\<lambda>w. list_all (bound ?s new) (shadowRoot (heap w c))"])
            (use step p1 in blast)+
      qed
    qed
  qed
qed

text \<open>
  When no selected element of a tree refuses the new value, the callback never leaves the
  tree half written, however it ends.
\<close>

lemma attributeChangedCallback_keeps_accepts:
  "list_all (accepts s v) (shadowRoot (heap w c)) \<Longrightarrow>
   list_all (accepts s v)
     (shadowRoot (heap (world_of (attributeChangedCallback host depth w x name old new source)) c))"
proof (induction depth arbitrary: w x source)
  case 0
  then show ?case by simp
next
  case (Suc depth)
  let ?P = "\<lambda>w. list_all (accepts s v) (shadowRoot (heap w c))"
  have bindstep: "?P (store_forest x (fst (snd (bind_forest sel x new [] 0 (shadowRoot (heap w x)))))
        ev w)" for sel ev
    using Suc.prems bind_keeps_accepts(2) [of s v "shadowRoot (heap w x)" sel x new "[]" 0]
    by (auto simp: store_forest_heap)
  have loop: "?P (world_of (forEach (\<lambda>w' subscriber.
            attributeChangedCallback host depth
              (emit (Callback subscriber name old new (Some x)) w')
              subscriber name old new (Some x)) registered w1))" if "?P w1" for registered w1
  proof (rule forEach_invariant [where P = ?P])
    fix w' :: world and y
    assume "?P w'"
    then have "?P (emit (Callback y name old new (Some x)) w')" by simp
    then show "?P (world_of (attributeChangedCallback host depth
        (emit (Callback y name old new (Some x)) w') y name old new (Some x)))"
      by (rule Suc.IH)
  qed (rule that)
  show ?case
  proof (cases "new = old")
    case True
    with Suc.prems show ?thesis by simp
  next
    case False
    show ?thesis
    proof (cases "query host name (shadowRoot (heap w x))")
      case (Inl e)
      with False Suc.prems show ?thesis by simp
    next
      case (Inr sel)
      obtain e forest ev where b:
        "bind_forest sel x new [] 0 (shadowRoot (heap w x)) = (e, forest, ev)"
        by (cases "bind_forest sel x new [] 0 (shadowRoot (heap w x))") auto
      from bindstep [of sel ev] b have p1: "?P (store_forest x forest ev w)" by simp
      from loop [OF p1] p1 False Inr b show ?thesis
        by (auto simp: Let_def split: option.split property.split)
    qed
  qed
qed

lemma attributeChangedCallback_keeps_bound:
  assumes "css_plain name"
    and "list_all (accepts (''bind-'' @ name) new) (shadowRoot (heap w c))"
    and "list_all (bound (''bind-'' @ name) new) (shadowRoot (heap w c))"
  shows "list_all (bound (''bind-'' @ name) new)
     (shadowRoot (heap (world_of (attributeChangedCallback host depth w x name old new source)) c))"
  using assms(2,3)
proof (induction depth arbitrary: w x source)
  case 0
  then show ?case by simp
next
  case (Suc depth)
  let ?s = "''bind-'' @ name"
  let ?A = "\<lambda>w. list_all (accepts ?s new) (shadowRoot (heap w c))"
  let ?B = "\<lambda>w. list_all (bound ?s new) (shadowRoot (heap w c))"
  show ?case
  proof (cases "new = old")
    case True
    with Suc.prems show ?thesis by simp
  next
    case False
    obtain e forest ev where b:
      "bind_forest (by_name ?s) x new [] 0 (shadowRoot (heap w x)) = (e, forest, ev)"
      by (cases "bind_forest (by_name ?s) x new [] 0 (shadowRoot (heap w x))") auto
    let ?w1 = "store_forest x forest ev w"
    note unfold = attributeChangedCallback_Suc_plain [OF assms(1) False b, of host depth source]
    have a1: "?A ?w1"
      using Suc.prems(1) bind_keeps_accepts(2) [of ?s new "shadowRoot (heap w x)" "by_name ?s" x new "[]" 0] b
      by (auto simp: store_forest_heap)
    have b1: "?B ?w1 \<and> (x = c \<longrightarrow> e = None)"
    proof (cases "x = c")
      case True
      from bind_accepts(2) [of "by_name ?s" ?s new "shadowRoot (heap w x)" x "[]" 0] Suc.prems(1) b True
      have none: "e = None" by simp
      from bind_bound(2) [of "by_name ?s" ?s x new "[]" 0 "shadowRoot (heap w x)"] b none
      have "list_all (bound ?s new) forest" by simp
      with True none show ?thesis by (simp add: store_forest_heap)
    next
      case False
      with Suc.prems(2) show ?thesis by (simp add: store_forest_heap)
    qed
    have loop: "?B (world_of (forEach (\<lambda>w' subscriber.
            attributeChangedCallback host depth
              (emit (Callback subscriber name old new (Some x)) w')
              subscriber name old new (Some x)) registered ?w1))" for registered
    proof -
      have "?A (world_of (forEach (\<lambda>w' subscriber.
            attributeChangedCallback host depth
              (emit (Callback subscriber name old new (Some x)) w')
              subscriber name old new (Some x)) registered ?w1)) \<and>
         ?B (world_of (forEach (\<lambda>w' subscriber.
            attributeChangedCallback host depth
              (emit (Callback subscriber name old new (Some x)) w')
              subscriber name old new (Some x)) registered ?w1))"
      proof (rule forEach_invariant [where P = "\<lambda>w. ?A w \<and> ?B w"])
        fix w' :: world and y
        let ?w = "emit (Callback y name old new (Some x)) w'"
        assume "?A w' \<and> ?B w'"
        then have a: "?A ?w" and bb: "?B ?w" by simp_all
        from a have "?A (world_of (attributeChangedCallback host depth ?w y name old new (Some x)))"
          by (rule attributeChangedCallback_keeps_accepts)
        moreover from a bb
        have "?B (world_of (attributeChangedCallback host depth ?w y name old new (Some x)))"
          by (rule Suc.IH)
        ultimately show "?A (world_of (attributeChangedCallback host depth ?w y name old new (Some x))) \<and>
          ?B (world_of (attributeChangedCallback host depth ?w y name old new (Some x)))" ..
      qed (use a1 b1 in simp)
      then show ?thesis ..
    qed
    from b1 loop show ?thesis
      unfolding unfold
      by (auto split: option.split property.split)
  qed
qed

text \<open>
  The first activation writes the receiver's own tree before it calls anyone: when no
  selected element refuses the value, the receiver's tree shows it however the call ends.
\<close>

lemma attributeChangedCallback_bound_accepted:
  assumes "css_plain name" and "new \<noteq> old"
    and "list_all (accepts (''bind-'' @ name) new) (shadowRoot (heap w this))"
  shows "list_all (bound (''bind-'' @ name) new)
     (shadowRoot (heap (world_of
        (attributeChangedCallback host (Suc depth) w this name old new source)) this))"
proof -
  let ?s = "''bind-'' @ name"
  let ?A = "\<lambda>w. list_all (accepts ?s new) (shadowRoot (heap w this))"
  let ?B = "\<lambda>w. list_all (bound ?s new) (shadowRoot (heap w this))"
  obtain e forest ev where b:
    "bind_forest (by_name ?s) this new [] 0 (shadowRoot (heap w this)) = (e, forest, ev)"
    by (cases "bind_forest (by_name ?s) this new [] 0 (shadowRoot (heap w this))") auto
  let ?w1 = "store_forest this forest ev w"
  note unfold = attributeChangedCallback_Suc_plain [OF assms(1,2) b, of host depth source]
  from bind_accepts(2) [of "by_name ?s" ?s new "shadowRoot (heap w this)" this "[]" 0] assms(3) b
  have none: "e = None" by simp
  from bind_bound(2) [of "by_name ?s" ?s this new "[]" 0 "shadowRoot (heap w this)"] b none
  have b1: "?B ?w1" by (simp add: store_forest_heap)
  have a1: "?A ?w1"
    using assms(3) bind_keeps_accepts(2) [of ?s new "shadowRoot (heap w this)" "by_name ?s" this new "[]" 0] b
    by (auto simp: store_forest_heap)
  have loop: "?B (world_of (forEach (\<lambda>w' subscriber.
            attributeChangedCallback host depth
              (emit (Callback subscriber name old new (Some this)) w')
              subscriber name old new (Some this)) registered ?w1))" for registered
  proof -
    have "?A (world_of (forEach (\<lambda>w' subscriber.
            attributeChangedCallback host depth
              (emit (Callback subscriber name old new (Some this)) w')
              subscriber name old new (Some this)) registered ?w1)) \<and>
         ?B (world_of (forEach (\<lambda>w' subscriber.
            attributeChangedCallback host depth
              (emit (Callback subscriber name old new (Some this)) w')
              subscriber name old new (Some this)) registered ?w1))"
    proof (rule forEach_invariant [where P = "\<lambda>w. ?A w \<and> ?B w"])
      fix w' :: world and y
      let ?w = "emit (Callback y name old new (Some this)) w'"
      assume "?A w' \<and> ?B w'"
      then have a: "?A ?w" and bb: "?B ?w" by simp_all
      from a have "?A (world_of (attributeChangedCallback host depth ?w y name old new (Some this)))"
        by (rule attributeChangedCallback_keeps_accepts)
      moreover from assms(1) a bb
      have "?B (world_of (attributeChangedCallback host depth ?w y name old new (Some this)))"
        by (rule attributeChangedCallback_keeps_bound)
      ultimately show "?A (world_of (attributeChangedCallback host depth ?w y name old new (Some this))) \<and>
          ?B (world_of (attributeChangedCallback host depth ?w y name old new (Some this)))" ..
    qed (use a1 b1 in simp)
    then show ?thesis ..
  qed
  from b1 loop none show ?thesis
    unfolding unfold
    by (auto split: option.split property.split)
qed

lemma attributeChangedCallback_log_extends:
  "\<exists>t. log (world_of (attributeChangedCallback host depth w this name old new source)) = log w @ t"
proof (induction depth arbitrary: w this source)
  case 0
  show ?case by simp
next
  case (Suc depth)
  have loop: "\<exists>t. log (world_of (forEach (\<lambda>w' subscriber.
            attributeChangedCallback host depth
              (emit (Callback subscriber name old new (Some this)) w')
              subscriber name old new (Some this)) registered w1)) = log w @ t"
    if "\<exists>t. log w1 = log w @ t" for registered w1
  proof (rule forEach_invariant [where P = "\<lambda>w'. \<exists>t. log w' = log w @ t"])
    fix w' :: world and x
    assume "\<exists>t. log w' = log w @ t"
    then obtain t where t: "log w' = log w @ t" ..
    from Suc.IH [of "emit (Callback x name old new (Some this)) w'" x "Some this"]
    obtain t' where "log (world_of (attributeChangedCallback host depth
        (emit (Callback x name old new (Some this)) w') x name old new (Some this)))
        = log (emit (Callback x name old new (Some this)) w') @ t'" ..
    with t show "\<exists>t. log (world_of (attributeChangedCallback host depth
        (emit (Callback x name old new (Some this)) w') x name old new (Some this))) = log w @ t"
      by (simp add: emit_def)
  qed (rule that)
  show ?case
  proof (cases "new = old")
    case True
    then show ?thesis by simp
  next
    case False
    show ?thesis
    proof (cases "query host name (shadowRoot (heap w this))")
      case (Inl e)
      with False show ?thesis by simp
    next
      case (Inr sel)
      obtain e forest ev where b:
        "bind_forest sel this new [] 0 (shadowRoot (heap w this)) = (e, forest, ev)"
        by (cases "bind_forest sel this new [] 0 (shadowRoot (heap w this))") auto
      have p1: "\<exists>t. log (store_forest this forest ev w) = log w @ t"
        by (simp add: store_forest_heap)
      from loop [OF p1] p1 False Inr b show ?thesis
        by (auto simp: Let_def split: option.split property.split)
    qed
  qed
qed

subsection \<open>Bound elements show the new value\<close>

lemma returnedE: "returned r \<Longrightarrow> \<exists>w'. r = Returned () w'"
  by (cases r) auto

lemma bound_forest_elements:
  assumes "list_all (bound s v) forest" and "Element e cs \<in> set (elements_of forest)"
    and "name_attr e = Some s"
  shows "value_setter e v (text_value v) = Inr (value_prop e, text_of (Element e cs))"
proof -
  from assms(2) obtain n where "n \<in> set forest" and "Element e cs \<in> set (elements n)"
    by (auto simp: elements_of_def)
  moreover with assms(1) have "bound s v n" by (simp add: list_all_iff)
  ultimately show ?thesis
    using bound_elements [of s v n e cs] assms(3) by simp
qed

text \<open>
  Claim C1, as the code has it. Take a name without a character that is special in a
  quoted string of a selector, and a call of \<^verbatim>\<open>attributeChangedCallback\<close> for it with
  \<^verbatim>\<open>newValue !== oldValue\<close> that returns. Afterwards the receiver's shadow tree is what it
  was outside the elements named \<^verbatim>\<open>bind-\<close> plus the name, and every element of the tree with
  that name, however many there are and whatever the subscribers' own callbacks did in
  between, reads back what the two assignments leave on it. Assigning to \<^verbatim>\<open>textContent\<close>
  leaves the new value as text: the new value when it is a string, the empty string when
  it is \<^verbatim>\<open>null\<close> or \<^verbatim>\<open>undefined\<close>. The element's \<^verbatim>\<open>value\<close> and text content are then what its
  own \<^verbatim>\<open>value\<close> setter makes of the new value and that text: on an ordinary element the
  value itself and the text, on a form control the converted and sanitised string and the
  text, on an output element the string of the new value as both.
\<close>

theorem bound_nodes_updated:
  assumes "css_plain name"
    and "attributeChangedCallback host depth w this name oldValue newValue source = Returned () w'"
    and "newValue \<noteq> oldValue"
  shows "map (prune (''bind-'' @ name)) (shadowRoot (heap w' this))
           = map (prune (''bind-'' @ name)) (shadowRoot (heap w this)) \<and>
         (\<forall>e cs. Element e cs \<in> set (elements_of (shadowRoot (heap w' this))) \<longrightarrow>
            name_attr e = Some (''bind-'' @ name) \<longrightarrow>
            value_setter e newValue (text_value newValue)
              = Inr (value_prop e, text_of (Element e cs)))"
proof -
  from assms(2) have w': "w' = world_of (attributeChangedCallback host depth w this name oldValue newValue source)"
    by simp
  have "same_outside (''bind-'' @ name) w w'"
    unfolding w' using assms(1) by (rule attributeChangedCallback_same_outside)
  then have 1: "map (prune (''bind-'' @ name)) (shadowRoot (heap w' this))
           = map (prune (''bind-'' @ name)) (shadowRoot (heap w this))"
    by (simp add: same_outside_def)
  from assms(3) have "(this = this \<and> newValue \<noteq> oldValue) \<or>
      list_all (bound (''bind-'' @ name) newValue) (shadowRoot (heap w this))" by simp
  with assms(1,2) have "list_all (bound (''bind-'' @ name) newValue) (shadowRoot (heap w' this))"
    by (rule attributeChangedCallback_bound_returned)
  with 1 show ?thesis by (blast dest: bound_forest_elements)
qed

theorem bound_nodes_updated_witness:
  "\<exists>w'. attributeChangedCallback strict_host (Suc (Suc (Suc 0))) page 0 ''data-spam'' Null
            (Str ''42'') None = Returned () w' \<and>
     map name_of (shadowRoot (heap w' 0))
       = [Some ''bind-data-spam'', Some ''bind-data-spam'', Some ''bind-data-eggs''] \<and>
     map text_content (shadowRoot (heap w' 0)) = [Str ''42'', Str ''42'', Str ''two''] \<and>
     map value_of (shadowRoot (heap w' 0)) = [Str ''42'', Str ''42'', Undefined] \<and>
     list_all (\<lambda>n. case n of
                  Text t \<Rightarrow> True
                | Element e cs \<Rightarrow>
                    if name_attr e = Some ''bind-data-spam''
                    then value_setter e (Str ''42'') ''42'' = Inr (value_prop e, text_of n)
                    else True)
       (elements_of (shadowRoot (heap w' 0)))"
proof -
  let ?run = "attributeChangedCallback strict_host (Suc (Suc (Suc 0))) page 0 ''data-spam'' Null
            (Str ''42'') None"
  have "returned ?run" by code_simp
  then obtain w' where run: "?run = Returned () w'" by (blast dest: returnedE)
  have plain: "css_plain ''data-spam''" by code_simp
  have new: "Str ''42'' \<noteq> Null" by simp
  from bound_nodes_updated [OF plain run new]
  have all: "\<And>e cs. Element e cs \<in> set (elements_of (shadowRoot (heap w' 0))) \<Longrightarrow>
            name_attr e = Some ''bind-data-spam'' \<Longrightarrow>
            value_setter e (Str ''42'') ''42'' = Inr (value_prop e, text_of (Element e cs))"
    by simp
  have la: "list_all (\<lambda>n. case n of
                  Text t \<Rightarrow> True
                | Element e cs \<Rightarrow>
                    if name_attr e = Some ''bind-data-spam''
                    then value_setter e (Str ''42'') ''42'' = Inr (value_prop e, text_of n)
                    else True)
       (elements_of (shadowRoot (heap w' 0)))"
    unfolding list_all_iff using all by (auto split: dom.split)
  have "map name_of (shadowRoot (heap (world_of ?run) 0))
       = [Some ''bind-data-spam'', Some ''bind-data-spam'', Some ''bind-data-eggs'']"
    and "map text_content (shadowRoot (heap (world_of ?run) 0)) = [Str ''42'', Str ''42'', Str ''two'']"
    and "map value_of (shadowRoot (heap (world_of ?run) 0)) = [Str ''42'', Str ''42'', Undefined]"
    by code_simp+
  with run have ev: "map name_of (shadowRoot (heap w' 0))
       = [Some ''bind-data-spam'', Some ''bind-data-spam'', Some ''bind-data-eggs'']"
    "map text_content (shadowRoot (heap w' 0)) = [Str ''42'', Str ''42'', Str ''two'']"
    "map value_of (shadowRoot (heap w' 0)) = [Str ''42'', Str ''42'', Undefined]"
    by simp_all
  from run ev la show ?thesis by simp
qed

text \<open>
  The claim as stated fails where a property does not store what is assigned. Notified of
  the removal of the attribute (new value \<^verbatim>\<open>null\<close>), the heading and the input bound to it
  read the empty string as text content, and the input reads the empty string as value.
  Notified of a string with a line feed, the input reads the string without it. Notified
  of the removal, an output element bound to the attribute reads \<^verbatim>\<open>null\<close>, four letters, as
  its value and as its text content. It also
  fails for a name with an escape in it: notified of \<^verbatim>\<open>data-\73 pam\<close>, the heading whose name
  is \<^verbatim>\<open>bind-\<close> plus that name keeps its text, because the selector selects the elements
  named \<^verbatim>\<open>bind-data-spam\<close>.
\<close>

theorem assigned_value_is_not_read_back:
  "returned (attributeChangedCallback strict_host (Suc (Suc (Suc 0))) page 0 ''data-spam''
      (Str ''1'') Null None) \<and>
   map name_of (shadowRoot (heap page 0))
     = [Some ''bind-data-spam'', Some ''bind-data-spam'', Some ''bind-data-eggs''] \<and>
   map text_content (shadowRoot (heap (world_of
      (attributeChangedCallback strict_host (Suc (Suc (Suc 0))) page 0 ''data-spam''
         (Str ''1'') Null None)) 0))
     = [Str [], Str [], Str ''two''] \<and>
   map value_of (shadowRoot (heap (world_of
      (attributeChangedCallback strict_host (Suc (Suc (Suc 0))) page 0 ''data-spam''
         (Str ''1'') Null None)) 0))
     = [Null, Str [], Undefined] \<and>
   returned (attributeChangedCallback strict_host (Suc (Suc (Suc 0))) page 0 ''data-spam''
      Null (Str [CHR ''4'', CHR 0x0A, CHR ''2'']) None) \<and>
   map value_of (shadowRoot (heap (world_of
      (attributeChangedCallback strict_host (Suc (Suc (Suc 0))) page 0 ''data-spam''
         Null (Str [CHR ''4'', CHR 0x0A, CHR ''2'']) None)) 0))
     = [Str [CHR ''4'', CHR 0x0A, CHR ''2''], Str ''42'', Undefined] \<and>
   map name_of (shadowRoot (heap output_page 0)) = [Some ''bind-data-spam''] \<and>
   returned (attributeChangedCallback strict_host (Suc 0) output_page 0 ''data-spam''
      (Str ''1'') Null None) \<and>
   map text_content (shadowRoot (heap (world_of
      (attributeChangedCallback strict_host (Suc 0) output_page 0 ''data-spam''
         (Str ''1'') Null None)) 0)) = [Str ''null''] \<and>
   map value_of (shadowRoot (heap (world_of
      (attributeChangedCallback strict_host (Suc 0) output_page 0 ''data-spam''
         (Str ''1'') Null None)) 0)) = [Str ''null''] \<and>
   returned (attributeChangedCallback escape_host (Suc 0) escape_page 0 escaped_name Null
      (Str ''42'') None) \<and>
   map name_of (shadowRoot (heap escape_page 0))
     = [Some (''bind-'' @ escaped_name), Some ''bind-data-spam''] \<and>
   map text_content (shadowRoot (heap (world_of
      (attributeChangedCallback escape_host (Suc 0) escape_page 0 escaped_name Null
         (Str ''42'') None)) 0))
     = [Str ''old'', Str ''42'']"
  by code_simp

subsection \<open>An unchanged value is ignored\<close>

text \<open>
  Claim C2. A call of \<^verbatim>\<open>attributeChangedCallback\<close> whose new value is the old value
  (two equal strings, or \<^verbatim>\<open>undefined\<close> twice, or \<^verbatim>\<open>null\<close> twice) returns at once and
  leaves the world as it was: no node of any shadow tree is written, no subscriber is
  called and nothing is added to the log.
\<close>

theorem unchanged_value_is_noop:
  "attributeChangedCallback host (Suc depth) w this name v v source = Returned () w"
  by simp

subsection \<open>What lies outside the selected elements is left alone\<close>

lemma prune_same:
  "prune s n' = prune s n \<Longrightarrow> \<not> has_named s n \<Longrightarrow> n' = n"
proof (induction n arbitrary: n')
  case (Text t)
  then show ?case by (cases n') (auto split: if_splits)
next
  case (Element e cs)
  from Element.prems(2) have e: "name_attr e \<noteq> Some s"
    and cs: "\<And>c. c \<in> set cs \<Longrightarrow> \<not> has_named s c"
    by (auto simp: list_ex_iff)
  from Element.prems(1) e obtain e' cs' where n': "n' = Element e' cs'"
    by (cases n') auto
  have ne': "name_attr e' \<noteq> Some s"
  proof
    assume "name_attr e' = Some s"
    with Element.prems(1) n' e have "e'\<lparr>value_prop := Undefined\<rparr> = e" by simp
    then have "name_attr e = name_attr e'" by (metis element.select_convs(1) element.surjective element.update_convs(3))
    with \<open>name_attr e' = Some s\<close> e show False by simp
  qed
  with Element.prems(1) n' e have ee: "e' = e" and m: "map (prune s) cs' = map (prune s) cs"
    by simp_all
  from m have len: "length cs' = length cs" by (rule map_eq_imp_length_eq)
  have "cs' ! i = cs ! i" if "i < length cs" for i
  proof -
    from m have "map (prune s) cs' ! i = map (prune s) cs ! i" by (rule arg_cong)
    with that len have "prune s (cs' ! i) = prune s (cs ! i)" by simp
    moreover from that have "cs ! i \<in> set cs" by simp
    ultimately show ?thesis using Element.IH cs by blast
  qed
  with len have "cs' = cs" by (simp add: list_eq_iff_nth_eq)
  with ee n' show ?case by simp
qed

text \<open>
  Claim C7, as the code has it. For a name without a character that is special in a
  quoted string of a selector, a call of \<^verbatim>\<open>attributeChangedCallback\<close> leaves every shadow
  tree as it was outside the elements named \<^verbatim>\<open>bind-\<close> plus the name, whatever the values
  and however the call ends: cutting the children and the value off every such element
  gives the same tree before and after. So no node outside such elements is added,
  removed or moved, no element with another name has an attribute or its value written,
  and a tree with no element of that name in it is afterwards exactly the tree it was.
  What does change with an element of that name is the text content of the elements
  around it, and the nodes inside it, which the assignment removes.
\<close>

theorem other_nodes_unchanged:
  assumes "css_plain name"
  shows "map (prune (''bind-'' @ name))
           (shadowRoot (heap (world_of
              (attributeChangedCallback host depth w this name oldValue newValue source)) r))
           = map (prune (''bind-'' @ name)) (shadowRoot (heap w r)) \<and>
         (\<forall>i < length (shadowRoot (heap w r)).
            \<not> has_named (''bind-'' @ name) (shadowRoot (heap w r) ! i) \<longrightarrow>
            shadowRoot (heap (world_of
              (attributeChangedCallback host depth w this name oldValue newValue source)) r) ! i
              = shadowRoot (heap w r) ! i)"
proof -
  let ?w' = "world_of (attributeChangedCallback host depth w this name oldValue newValue source)"
  let ?s = "''bind-'' @ name"
  have "same_outside ?s w ?w'"
    using assms by (rule attributeChangedCallback_same_outside)
  then have m: "map (prune ?s) (shadowRoot (heap ?w' r)) = map (prune ?s) (shadowRoot (heap w r))"
    by (simp add: same_outside_def)
  have "shadowRoot (heap ?w' r) ! i = shadowRoot (heap w r) ! i"
    if "i < length (shadowRoot (heap w r))" and "\<not> has_named ?s (shadowRoot (heap w r) ! i)" for i
  proof -
    from m have len: "length (shadowRoot (heap ?w' r)) = length (shadowRoot (heap w r))"
      by (rule map_eq_imp_length_eq)
    from m have "map (prune ?s) (shadowRoot (heap ?w' r)) ! i = map (prune ?s) (shadowRoot (heap w r)) ! i"
      by (rule arg_cong)
    with len that(1) have "prune ?s (shadowRoot (heap ?w' r) ! i) = prune ?s (shadowRoot (heap w r) ! i)"
      by simp
    then show ?thesis using that(2) by (rule prune_same)
  qed
  with m show ?thesis by simp
qed

theorem other_nodes_unchanged_witness:
  "shadowRoot (heap (world_of
      (attributeChangedCallback strict_host (Suc (Suc (Suc 0))) page 0 ''data-spam'' Null
         (Str ''42'') None)) 0) ! 2 = p_node \<and>
   shadowRoot (heap (world_of
      (attributeChangedCallback strict_host (Suc (Suc (Suc 0))) page 0 ''data-spam'' Null
         (Str ''42'') None)) 2) ! 0 = div_node"
proof -
  have plain: "css_plain ''data-spam''" by code_simp
  have 0: "(2::nat) < length (shadowRoot (heap page 0))"
    "\<not> has_named (''bind-'' @ ''data-spam'') (shadowRoot (heap page 0) ! 2)"
    "shadowRoot (heap page 0) ! 2 = p_node"
    by (simp_all add: page_def publisher_def p_node_def ordinary_def)
  have 2: "(0::nat) < length (shadowRoot (heap page 2))"
    "\<not> has_named (''bind-'' @ ''data-spam'') (shadowRoot (heap page 2) ! 0)"
    "shadowRoot (heap page 2) ! 0 = div_node"
    by (simp_all add: page_def leaf_def div_node_def ordinary_def)
  from other_nodes_unchanged [OF plain, of strict_host "Suc (Suc (Suc 0))" page 0 Null "Str ''42''" None 0] 0
  have a: "shadowRoot (heap (world_of
      (attributeChangedCallback strict_host (Suc (Suc (Suc 0))) page 0 ''data-spam'' Null
         (Str ''42'') None)) 0) ! 2 = p_node" by auto
  from other_nodes_unchanged [OF plain, of strict_host "Suc (Suc (Suc 0))" page 0 Null "Str ''42''" None 2] 2
  have b: "shadowRoot (heap (world_of
      (attributeChangedCallback strict_host (Suc (Suc (Suc 0))) page 0 ''data-spam'' Null
         (Str ''42'') None)) 2) ! 0 = div_node" by auto
  from a b show ?thesis ..
qed

text \<open>
  The claim as stated fails for nodes around and inside a selected element. Notified of
  \<^verbatim>\<open>data-spam\<close>, the paragraph named \<^verbatim>\<open>bind-data-eggs\<close> reads \<^verbatim>\<open>42\<close> instead of \<^verbatim>\<open>old\<close>
  as its text content, because the span inside it is bound to \<^verbatim>\<open>data-spam\<close>; and the
  emphasis named \<^verbatim>\<open>note\<close> is gone from the tree, because it was inside a division bound to
  \<^verbatim>\<open>data-spam\<close>. It also fails for a name with an escape in it: notified of
  \<^verbatim>\<open>data-\73 pam\<close>, the heading named \<^verbatim>\<open>bind-data-spam\<close>, which is not \<^verbatim>\<open>bind-\<close> plus that
  name, has its text content and its value written.
\<close>

theorem surrounding_text_changes:
  "map name_of (elements_of (shadowRoot (heap nested_page 0)))
     = [Some ''bind-data-eggs'', Some ''bind-data-spam'', Some ''bind-data-spam'', Some ''note''] \<and>
   map text_content (elements_of (shadowRoot (heap nested_page 0)))
     = [Str ''old'', Str ''old'', Str ''x'', Str ''x''] \<and>
   returned (attributeChangedCallback strict_host (Suc 0) nested_page 0 ''data-spam'' Null
      (Str ''42'') None) \<and>
   map name_of (elements_of (shadowRoot (heap (world_of
      (attributeChangedCallback strict_host (Suc 0) nested_page 0 ''data-spam'' Null
         (Str ''42'') None)) 0)))
     = [Some ''bind-data-eggs'', Some ''bind-data-spam'', Some ''bind-data-spam''] \<and>
   map text_content (elements_of (shadowRoot (heap (world_of
      (attributeChangedCallback strict_host (Suc 0) nested_page 0 ''data-spam'' Null
         (Str ''42'') None)) 0)))
     = [Str ''42'', Str ''42'', Str ''42''] \<and>
   ''bind-data-spam'' \<noteq> ''bind-'' @ escaped_name \<and>
   name_of (shadowRoot (heap escape_page 0) ! 1) = Some ''bind-data-spam'' \<and>
   text_content (shadowRoot (heap escape_page 0) ! 1) = Str ''old'' \<and>
   value_of (shadowRoot (heap escape_page 0) ! 1) = Undefined \<and>
   returned (attributeChangedCallback escape_host (Suc 0) escape_page 0 escaped_name Null
      (Str ''42'') None) \<and>
   text_content (shadowRoot (heap (world_of
      (attributeChangedCallback escape_host (Suc 0) escape_page 0 escaped_name Null
         (Str ''42'') None)) 0) ! 1) = Str ''42'' \<and>
   value_of (shadowRoot (heap (world_of
      (attributeChangedCallback escape_host (Suc 0) escape_page 0 escaped_name Null
         (Str ''42'') None)) 0) ! 1) = Str ''42''"
  by code_simp

subsection \<open>Nodes first, then the subscribers in the order they registered\<close>





lemma forEach_chain_threw:
  assumes "forEach f xs w = Threw e w'"
  shows "\<exists>k ws. k < length xs \<and> length ws = Suc k \<and> ws ! 0 = w \<and>
           (\<forall>i < k. f (ws ! i) (xs ! i) = Returned () (ws ! Suc i)) \<and>
           f (ws ! k) (xs ! k) = Threw e w'"
  using assms
proof (induction xs arbitrary: w)
  case Nil
  then show ?case by simp
next
  case (Cons x xs)
  show ?case
  proof (cases "f w x")
    case (Threw e1 w1)
    with Cons.prems have "f w x = Threw e w'" by simp
    then have "0 < length (x # xs) \<and> length [w] = Suc 0 \<and> [w] ! 0 = w \<and>
           (\<forall>i < 0. f ([w] ! i) ((x # xs) ! i) = Returned () ([w] ! Suc i)) \<and>
           f ([w] ! 0) ((x # xs) ! 0) = Threw e w'" by simp
    then show ?thesis by blast
  next
    case (Returned u w1)
    with Cons.prems have 2: "forEach f xs w1 = Threw e w'" by simp
    from Cons.IH [OF 2] obtain k ws where k: "k < length xs" and len: "length ws = Suc k"
      and 0: "ws ! 0 = w1"
      and step: "\<And>i. i < k \<Longrightarrow> f (ws ! i) (xs ! i) = Returned () (ws ! Suc i)"
      and last: "f (ws ! k) (xs ! k) = Threw e w'"
      by blast
    have "f ((w # ws) ! i) ((x # xs) ! i) = Returned () ((w # ws) ! Suc i)"
      if "i < Suc k" for i
    proof (cases i)
      case 0
      with Returned \<open>ws ! 0 = w1\<close> show ?thesis by simp
    next
      case (Suc j)
      with that step [of j] show ?thesis by simp
    qed
    with k len last have "Suc k < length (x # xs) \<and> length (w # ws) = Suc (Suc k) \<and>
           (w # ws) ! 0 = w \<and>
           (\<forall>i < Suc k. f ((w # ws) ! i) ((x # xs) ! i) = Returned () ((w # ws) ! Suc i)) \<and>
           f ((w # ws) ! Suc k) ((x # xs) ! Suc k) = Threw e w'" by simp
    then show ?thesis by blast
  qed
qed

text \<open>
  A call that throws after its own loop has ended was in the same order up to the
  exception: either the list read for the name is an inherited property, or the
  subscribers before some subscriber \<^verbatim>\<open>k\<close> were called in order and returned, and the
  exception is the one the callback of subscriber \<^verbatim>\<open>k\<close> threw; no subscriber after it was
  called.
\<close>

lemma notification_order_threw:
  assumes "attributeChangedCallback host (Suc depth) w this name oldValue newValue source
             = Threw e w'"
    and "newValue \<noteq> oldValue"
    and "query host name (shadowRoot (heap w this)) = Inr sel"
    and "bind_forest sel this newValue [] 0 (shadowRoot (heap w this)) = (None, forest, ev)"
  shows "(e = TypeError \<and> w' = store_forest this forest ev w \<and>
          (\<exists>subs. subscribers (heap w this) = Some subs \<and> get_prop subs name = Inherited)) \<or>
         (\<exists>k ws. k < length (subscriber_list (heap w this) name) \<and> length ws = Suc k \<and>
            ws ! 0 = store_forest this forest ev w \<and>
            (\<forall>i < k.
               attributeChangedCallback host depth
                 (emit (Callback (subscriber_list (heap w this) name ! i) name oldValue newValue
                          (Some this)) (ws ! i))
                 (subscriber_list (heap w this) name ! i) name oldValue newValue (Some this)
                 = Returned () (ws ! Suc i)) \<and>
            attributeChangedCallback host depth
              (emit (Callback (subscriber_list (heap w this) name ! k) name oldValue newValue
                       (Some this)) (ws ! k))
              (subscriber_list (heap w this) name ! k) name oldValue newValue (Some this)
              = Threw e w')"
proof (cases "subscribers (heap w this)")
  case None
  with assms show ?thesis by (simp add: Let_def store_forest_heap)
next
  case (Some subs)
  show ?thesis
  proof (cases "get_prop subs name")
    case Absent
    with Some assms show ?thesis by (simp add: Let_def store_forest_heap)
  next
    case Inherited
    with Some assms show ?thesis by (auto simp: Let_def store_forest_heap)
  next
    case (Own registered)
    with Some have subs: "subscriber_list (heap w this) name = registered"
      by (auto simp: subscriber_list_def registered_for_def get_prop_def
          split: option.splits if_splits)
    from Some Own assms have "forEach (\<lambda>w' subscriber.
              attributeChangedCallback host depth
                (emit (Callback subscriber name oldValue newValue (Some this)) w')
                subscriber name oldValue newValue (Some this)) registered
              (store_forest this forest ev w) = Threw e w'"
      by (simp add: Let_def store_forest_heap)
    from forEach_chain_threw [OF this] subs show ?thesis by simp
  qed
qed

subsection \<open>Change events from nodes under other names\<close>

lemma match_bind_data_Some:
  "match_bind_data name = Some key \<Longrightarrow> name = ''bind-data-'' @ key \<and> list_all is_lower key"
  unfolding match_bind_data_def
  by (metis append_take_drop_id option.distinct(1) option.inject)

lemma match_bind_data_append:
  "list_all is_lower key \<Longrightarrow> match_bind_data (''bind-data-'' @ key) = Some key"
  by (simp add: match_bind_data_def)

lemma mixed_case_name_ignored:
  "changeListener host depth w this (text_input (Some ''bind-data-highScore'') v) = Returned () w"
  by (simp add: changeListener_def name_property_def text_input_def match_bind_data_def
      is_lower_def lower_alpha_def)

lemma empty_suffix_ignored:
  "changeListener host depth w this (text_input (Some ''bind-data-'') v) = Returned () w"
  by (simp add: changeListener_def name_property_def text_input_def match_bind_data_def)

lemma no_name_property_ignored:
  "\<not> reflects_name target \<Longrightarrow> changeListener host depth w this target = Returned () w"
  by (simp add: changeListener_def name_property_def)

text \<open>
  Claim C8. When the node a \<^verbatim>\<open>change\<close> event comes from has no \<^verbatim>\<open>name\<close>, or a name that is
  not \<^verbatim>\<open>bind-data-\<close> followed by one or more lowercase letters and nothing else, the
  listener returns without throwing and leaves the world as it was: no attribute is
  written and no callback runs. The lemmas above are the cases of the mixed-case name
  \<^verbatim>\<open>bind-data-highScore\<close>, of the empty suffix, and of a target without a \<^verbatim>\<open>name\<close>
  property.
\<close>

theorem unmatched_change_ignored:
  assumes "\<nexists>key. key \<noteq> [] \<and> list_all is_lower key \<and>
             name_attr target = Some (''bind-data-'' @ key)"
  shows "changeListener host depth w this target = Returned () w"
proof (cases "name_property target")
  case Undefined
  then show ?thesis by (simp add: changeListener_def)
next
  case Null
  then show ?thesis by (simp add: changeListener_def)
next
  case (Str name)
  show ?thesis
  proof (cases "name = []")
    case True
    with Str show ?thesis by (simp add: changeListener_def)
  next
    case False
    with Str have attr: "name_attr target = Some name"
      by (auto simp: name_property_def split: if_splits option.splits)
    show ?thesis
    proof (cases "match_bind_data name")
      case None
      with Str show ?thesis by (simp add: changeListener_def)
    next
      case (Some key)
      from match_bind_data_Some [OF this] attr assms
      have "key = []" by blast
      with Some Str show ?thesis
        by (simp add: changeListener_def)
    qed
  qed
qed

theorem unmatched_change_ignored_witness:
  "(\<nexists>key. key \<noteq> [] \<and> list_all is_lower key \<and>
       name_attr (text_input (Some ''bind-data-highScore'') ''7'')
         = Some (''bind-data-'' @ key)) \<and>
   changeListener strict_host (Suc 0) page 0 (text_input (Some ''bind-data-highScore'') ''7'')
     = Returned () page"
proof -
  have h: "\<nexists>key. key \<noteq> [] \<and> list_all is_lower key \<and>
       name_attr (text_input (Some ''bind-data-highScore'') ''7'')
         = Some (''bind-data-'' @ key)"
    by (auto simp: is_lower_def lower_alpha_def text_input_def)
  from unmatched_change_ignored [OF h] h show ?thesis by blast
qed

subsection \<open>Registering a subscriber\<close>

text \<open>
  For every attribute name that is not the name of a property a plain object inherits,
  \<^verbatim>\<open>observeAttribute\<close> returns the element and the name's list is the former list (empty
  when there was none) with the subscriber at its end; registering the same subscriber
  again adds it again.
\<close>

lemma observeAttribute_appends:
  assumes "attributeName \<notin> set object_prototype_keys"
  shows "\<exists>w'. observeAttribute w this attributeName subscriber = Returned this w' \<and>
           registered_for (heap w' this) attributeName
             = Some (subscriber_list (heap w this) attributeName @ [subscriber])"
  using assms
  by (auto simp: observeAttribute_def Let_def get_prop_def set_component_def registered_for_def
      subscriber_list_def split: option.splits)

lemma observeAttribute_twice:
  assumes "attributeName \<notin> set object_prototype_keys"
  shows "\<exists>w' w''. observeAttribute w this attributeName subscriber = Returned this w' \<and>
           observeAttribute w' this attributeName subscriber = Returned this w'' \<and>
           registered_for (heap w'' this) attributeName
             = Some (subscriber_list (heap w this) attributeName @ [subscriber, subscriber])"
proof -
  from observeAttribute_appends [OF assms] obtain w' where
    1: "observeAttribute w this attributeName subscriber = Returned this w'"
    and r1: "registered_for (heap w' this) attributeName
             = Some (subscriber_list (heap w this) attributeName @ [subscriber])"
    by blast
  from observeAttribute_appends [OF assms] obtain w'' where
    2: "observeAttribute w' this attributeName subscriber = Returned this w''"
    and r2: "registered_for (heap w'' this) attributeName
             = Some (subscriber_list (heap w' this) attributeName @ [subscriber])"
    by blast
  from r1 have "subscriber_list (heap w' this) attributeName
      = subscriber_list (heap w this) attributeName @ [subscriber]"
    by (simp add: subscriber_list_def)
  with 1 2 r2 show ?thesis by simp
qed

text \<open>
  Claim C9. The claim holds for the names above and fails for the twelve names of
  \<^verbatim>\<open>object_prototype_keys\<close>: on a new element, \<^verbatim>\<open>observeAttribute('constructor', s)\<close> sets
  \<^verbatim>\<open>this.subscribers = {}\<close>, finds \<^verbatim>\<open>this.subscribers['constructor']\<close> to be the inherited
  \<^verbatim>\<open>Object\<close> rather than \<^verbatim>\<open>undefined\<close>, creates no list, and throws \<^verbatim>\<open>TypeError\<close> at
  \<^verbatim>\<open>.push\<close>: it neither registers the subscriber nor returns the element.
\<close>

theorem observeAttribute_inherited_key_throws:
  "observeAttribute page 2 ''constructor'' 3
     = Threw TypeError (set_component 2 (leaf\<lparr>subscribers := Some Map.empty\<rparr>) page) \<and>
   registered_for (heap (world_of (observeAttribute page 2 ''constructor'' 3)) 2) ''constructor''
     = None"
  by (simp add: observeAttribute_def Let_def get_prop_def object_prototype_keys_def
      set_component_def registered_for_def page_def leaf_def)

text \<open>
  Claim C10. \<^verbatim>\<open>observeAttribute(A, s)\<close> on \<^verbatim>\<open>this\<close> changes nothing but the list \<^verbatim>\<open>this\<close>
  holds for \<^verbatim>\<open>A\<close>: for every other name, and for every name on every other element, the
  registered list is the same list (same subscribers, same order, same repetitions); no
  element's shadow tree, attributes or observed attributes change and nothing is logged.
  This holds whether the call returns or throws.
\<close>

theorem observeAttribute_frame:
  assumes "B \<noteq> A \<or> r \<noteq> this"
  shows "registered_for (heap (world_of (observeAttribute w this A subscriber)) r) B
           = registered_for (heap w r) B \<and>
         shadowRoot (heap (world_of (observeAttribute w this A subscriber)) r)
           = shadowRoot (heap w r) \<and>
         attributes (heap (world_of (observeAttribute w this A subscriber)) r)
           = attributes (heap w r) \<and>
         observedAttributes (heap (world_of (observeAttribute w this A subscriber)) r)
           = observedAttributes (heap w r) \<and>
         log (world_of (observeAttribute w this A subscriber)) = log w"
  using assms
  by (auto simp: observeAttribute_def Let_def get_prop_def set_component_def registered_for_def
      split: option.splits)

theorem observeAttribute_frame_witness:
  "registered_for (heap (world_of (observeAttribute page 0 ''data-eggs'' 4)) 0) ''data-spam''
     = Some [1, 2, 3] \<and>
   shadowRoot (heap (world_of (observeAttribute page 0 ''data-eggs'' 4)) 0)
     = [h1_node, input_node, p_node] \<and>
   log (world_of (observeAttribute page 0 ''data-eggs'' 4)) = []"
proof -
  have h: "''data-spam'' \<noteq> ''data-eggs'' \<or> (0::nat) \<noteq> 0" by simp
  have "registered_for (heap page 0) ''data-spam'' = Some [1, 2, 3]"
    "shadowRoot (heap page 0) = [h1_node, input_node, p_node]" "log page = []"
    by (simp_all add: registered_for_def page_def publisher_def)
  with observeAttribute_frame [OF h, of page 4] h show ?thesis by simp
qed

subsection \<open>Which names are bound\<close>

text \<open>
  Claim C6. The header comment of the source says that only \<^verbatim>\<open>data-[a-z]*\<close> attributes get
  data binding, and the listener for \<^verbatim>\<open>change\<close> events holds to it. The callback does
  not: it builds the selector from whatever name it is given. For the class of the header
  comment, a notification that \<^verbatim>\<open>somethingElse\<close> changed from nothing to \<^verbatim>\<open>x\<close> returns
  with the heading named \<^verbatim>\<open>bind-somethingElse\<close> showing \<^verbatim>\<open>x\<close> as text content and value, and
  a notification for \<^verbatim>\<open>data-high-score\<close> does the same to the input named
  \<^verbatim>\<open>bind-data-high-score\<close>.
\<close>

theorem unmatched_name_is_synced:
  "''somethingElse'' \<in> set (observedAttributes (heap docs_page 0)) \<and>
   match_bind_data ''bind-somethingElse'' = None \<and>
   match_bind_data ''bind-data-high-score'' = None \<and>
   map name_of (shadowRoot (heap docs_page 0))
     = [Some ''bind-somethingElse'', Some ''bind-data-high-score''] \<and>
   map text_content (shadowRoot (heap docs_page 0)) = [Str ''old'', Str []] \<and>
   map value_of (shadowRoot (heap docs_page 0)) = [Undefined, Str ''0''] \<and>
   returned (attributeChangedCallback strict_host (Suc 0) docs_page 0 ''somethingElse'' Null
               (Str ''x'') None) \<and>
   map text_content (shadowRoot (heap (world_of
      (attributeChangedCallback strict_host (Suc 0) docs_page 0 ''somethingElse'' Null
         (Str ''x'') None)) 0)) = [Str ''x'', Str []] \<and>
   map value_of (shadowRoot (heap (world_of
      (attributeChangedCallback strict_host (Suc 0) docs_page 0 ''somethingElse'' Null
         (Str ''x'') None)) 0)) = [Str ''x'', Str ''0''] \<and>
   log (world_of
      (attributeChangedCallback strict_host (Suc 0) docs_page 0 ''somethingElse'' Null
         (Str ''x'') None))
     = [SetTextContent 0 [0] (Str ''x''), SetValue 0 [0] (Str ''x'')] \<and>
   returned (attributeChangedCallback strict_host (Suc 0) docs_page 0 ''data-high-score'' Null
               (Str ''7'') None) \<and>
   map text_content (shadowRoot (heap (world_of
      (attributeChangedCallback strict_host (Suc 0) docs_page 0 ''data-high-score'' Null
         (Str ''7'') None)) 0)) = [Str ''old'', Str ''7''] \<and>
   map value_of (shadowRoot (heap (world_of
      (attributeChangedCallback strict_host (Suc 0) docs_page 0 ''data-high-score'' Null
         (Str ''7'') None)) 0)) = [Undefined, Str ''7'']"
  by code_simp

subsection \<open>Writing through \<^verbatim>\<open>dataset\<close>\<close>

lemma camel_to_kebab_plain:
  "list_all (\<lambda>c. \<not> is_upper c) key \<Longrightarrow> camel_to_kebab key = key"
  by (induction key) (simp_all add: camel_to_kebab_def)

lemma dataset_name_plain: "plain_key key \<Longrightarrow> dataset_name key = Inr (''data-'' @ key)"
proof -
  assume p: "plain_key key"
  then have "list_all (\<lambda>c. \<not> is_upper c) key" and "list_all (\<lambda>c. c \<notin> set attr_name_forbidden) key"
    by (simp_all add: plain_key_def list_all_iff)
  then have "camel_to_kebab key = key" and "valid_attribute_name (''data-'' @ key)"
    by (simp_all add: camel_to_kebab_plain valid_attribute_name_def attr_name_forbidden_def)
  with p show ?thesis by (simp add: dataset_name_def plain_key_def)
qed

lemma css_plain_data: "plain_key key \<Longrightarrow> css_plain (''data-'' @ key)"
  by (simp add: plain_key_def css_plain_def css_special_def list_all_iff)

lemma is_lower_not_special:
  "is_lower c \<Longrightarrow>
   \<not> is_upper c \<and> c \<notin> set attr_name_forbidden \<and> c \<notin> set css_special \<and> c \<noteq> CHR ''-''"
  by (auto simp: is_lower_def is_upper_def lower_alpha_def upper_alpha_def attr_name_forbidden_def
      css_special_def)

lemma no_hyphen_no_hyphen_lower: "CHR ''-'' \<notin> set key \<Longrightarrow> \<not> hyphen_lower key"
  by (induction key rule: hyphen_lower.induct) auto

lemma lower_plain_key: "list_all is_lower key \<Longrightarrow> plain_key key"
proof -
  assume l: "list_all is_lower key"
  then have "CHR ''-'' \<notin> set key"
    using is_lower_not_special by (auto simp: list_all_iff)
  then have "\<not> hyphen_lower key" by (rule no_hyphen_no_hyphen_lower)
  with l show ?thesis
    using is_lower_not_special by (auto simp: plain_key_def list_all_iff)
qed

lemma same_outside_set_component:
  "same_outside s w1 w2 \<Longrightarrow> attributes (heap w2 r) = attributes (heap w1 r)"
  "same_outside s w1 w2 \<Longrightarrow> subscribers (heap w2 r) = subscribers (heap w1 r)"
  "same_outside s w1 w2 \<Longrightarrow> observedAttributes (heap w2 r) = observedAttributes (heap w1 r)"
  by (simp_all add: same_outside_def)

text \<open>
  What \<^verbatim>\<open>this.dataset[key] = v\<close> does for a key that stands for \<^verbatim>\<open>data-\<close> plus itself: the
  attribute is written and, when it is observed, the host calls the callback.
\<close>

lemma written_heap:
  "shadowRoot (heap (written w this n v) r) = shadowRoot (heap w r)"
  "subscribers (heap (written w this n v) r) = subscribers (heap w r)"
  "observedAttributes (heap (written w this n v) r) = observedAttributes (heap w r)"
  "attributes (heap (written w this n v) this) = (attributes (heap w this))(n \<mapsto> v)"
  "r \<noteq> this \<Longrightarrow> attributes (heap (written w this n v) r) = attributes (heap w r)"
  "log (written w this n v) = log w"
  by (simp_all add: written_def set_component_def)

lemma dataset_set_plain:
  assumes "plain_key key"
  shows "dataset_set host depth w this key v =
           (if (''data-'' @ key) \<in> set (observedAttributes (heap w this))
            then Returned ()
                   (world_of
                      (attributeChangedCallback host depth
                         (emit (Callback this (''data-'' @ key) (previous w this (''data-'' @ key))
                                  (Str v) None)
                            (written w this (''data-'' @ key) v))
                         this (''data-'' @ key) (previous w this (''data-'' @ key)) (Str v) None))
            else Returned () (written w this (''data-'' @ key) v))"
  using dataset_name_plain [OF assms]
  by (simp add: dataset_set_def Let_def written_def previous_def)

lemma dataset_set_attribute:
  assumes "plain_key key" and "dataset_set host depth w this key v = Returned () w'"
  shows "attributes (heap w' this) = (attributes (heap w this))((''data-'' @ key) \<mapsto> v)"
    and "subscribers (heap w' r) = subscribers (heap w r)"
    and "observedAttributes (heap w' r) = observedAttributes (heap w r)"
    and "\<exists>t. log w' = log w @ t"
proof -
  let ?n = "''data-'' @ key"
  let ?w1 = "written w this ?n v"
  let ?w2 = "emit (Callback this ?n (previous w this ?n) (Str v) None) ?w1"
  let ?w3 = "world_of (attributeChangedCallback host depth ?w2 this ?n (previous w this ?n)
                         (Str v) None)"
  have s: "same_outside (''bind-'' @ ?n) ?w2 ?w3"
    by (rule attributeChangedCallback_same_outside [OF css_plain_data [OF assms(1)]])
  from attributeChangedCallback_log_extends [of host depth ?w2 this ?n "previous w this ?n"
      "Str v" None]
  obtain t where t: "log ?w3 = log ?w2 @ t" ..
  have w': "w' = ?w3 \<or> w' = ?w1"
    using assms(2) unfolding dataset_set_plain [OF assms(1)] by (auto split: if_splits)
  from w' same_outside_set_component(1) [OF s, of this]
  show "attributes (heap w' this) = (attributes (heap w this))((''data-'' @ key) \<mapsto> v)"
    by (auto simp: written_heap)
  from w' same_outside_set_component(2) [OF s, of r]
  show "subscribers (heap w' r) = subscribers (heap w r)"
    by (auto simp: written_heap)
  from w' same_outside_set_component(3) [OF s, of r]
  show "observedAttributes (heap w' r) = observedAttributes (heap w r)"
    by (auto simp: written_heap)
  from w' t show "\<exists>t. log w' = log w @ t"
    by (auto simp: written_heap emit_def)
qed

lemma changeListener_matched:
  assumes "reflects_name target" and "name_attr target = Some (''bind-data-'' @ key)"
    and "key \<noteq> []" and "list_all is_lower key"
  shows "changeListener host depth w this target
           = dataset_set host depth w this key (ToString (value_prop target))"
proof -
  from assms(4) have "match_bind_data (''bind-data-'' @ key) = Some key"
    by (rule match_bind_data_append)
  with assms(1,2,3) show ?thesis by (simp add: changeListener_def name_property_def)
qed

subsection \<open>A change event writes the attribute\<close>

text \<open>
  Claim C4, as the code has it. A \<^verbatim>\<open>change\<close> event whose target has the \<^verbatim>\<open>name\<close> property
  \<^verbatim>\<open>bind-data-spam\<close> (an element whose interface reflects the \<^verbatim>\<open>name\<close> attribute) and the
  value \<^verbatim>\<open>42\<close> always returns with the element's \<^verbatim>\<open>data-spam\<close> attribute equal to \<^verbatim>\<open>42\<close>.
  The listener itself calls no callback.
  \<^item> When \<^verbatim>\<open>data-spam\<close> is not among the class's observed attributes, the world afterwards
    is the world before with the attribute written: nothing was called, nothing was
    logged, every shadow tree is as it was.
  \<^item> When it is, the host calls the callback with the attribute's previous value, and that
    call is the first thing logged. If the previous value was \<^verbatim>\<open>42\<close> already, the callback
    returns at its first test, and the world is again the one with the attribute written,
    with that one call logged. If the previous value was not \<^verbatim>\<open>42\<close> and no element named
    \<^verbatim>\<open>bind-data-spam\<close> in the tree has a \<^verbatim>\<open>value\<close> setter that throws on \<^verbatim>\<open>42\<close>, then
    afterwards every element named \<^verbatim>\<open>bind-data-spam\<close> in the tree has the value and the
    text content that its \<^verbatim>\<open>value\<close> setter makes of \<^verbatim>\<open>42\<close> and the text \<^verbatim>\<open>42\<close>: on every
    element whose setter leaves the text alone, the text content \<^verbatim>\<open>42\<close>.
\<close>

theorem change_event_reflected:
  assumes "reflects_name target" and "name_attr target = Some ''bind-data-spam''"
    and "value_prop target = Str ''42''"
  shows "\<exists>w'. changeListener host (Suc depth) w this target = Returned () w' \<and>
           attributes (heap w' this) ''data-spam'' = Some ''42'' \<and>
           (''data-spam'' \<notin> set (observedAttributes (heap w this)) \<longrightarrow>
              w' = written w this ''data-spam'' ''42'') \<and>
           (''data-spam'' \<in> set (observedAttributes (heap w this)) \<longrightarrow>
              (\<exists>t. log w' = log w @ Callback this ''data-spam'' (previous w this ''data-spam'')
                                     (Str ''42'') None # t) \<and>
              (previous w this ''data-spam'' = Str ''42'' \<longrightarrow>
                 w' = emit (Callback this ''data-spam'' (Str ''42'') (Str ''42'') None)
                        (written w this ''data-spam'' ''42'')) \<and>
              (previous w this ''data-spam'' \<noteq> Str ''42'' \<and>
               list_all (accepts ''bind-data-spam'' (Str ''42'')) (shadowRoot (heap w this)) \<longrightarrow>
                 (\<forall>e cs. Element e cs \<in> set (elements_of (shadowRoot (heap w' this))) \<longrightarrow>
                    name_attr e = Some ''bind-data-spam'' \<longrightarrow>
                    value_setter e (Str ''42'') ''42''
                      = Inr (value_prop e, text_of (Element e cs)))))"
proof -
  let ?n = "''data-spam''"
  let ?old = "previous w this ?n"
  let ?w1 = "written w this ?n ''42''"
  let ?w2 = "emit (Callback this ?n ?old (Str ''42'') None) ?w1"
  let ?w3 = "world_of (attributeChangedCallback host (Suc depth) ?w2 this ?n ?old (Str ''42'') None)"
  have low: "list_all is_lower ''spam''" by (simp add: is_lower_def lower_alpha_def)
  then have plain: "plain_key ''spam''" by (rule lower_plain_key)
  have css: "css_plain ?n" using css_plain_data [OF plain] by simp
  from assms have l: "changeListener host (Suc depth) w this target
      = dataset_set host (Suc depth) w this ''spam'' ''42''"
    using changeListener_matched [of target "''spam''" host "Suc depth" w this] low by simp
  have d: "dataset_set host (Suc depth) w this ''spam'' ''42'' =
             (if ?n \<in> set (observedAttributes (heap w this)) then Returned () ?w3
              else Returned () ?w1)"
    using dataset_set_plain [OF plain, of host "Suc depth" w this "''42''"] by simp
  show ?thesis
  proof (cases "?n \<in> set (observedAttributes (heap w this))")
    case False
    with l d have "changeListener host (Suc depth) w this target = Returned () ?w1" by simp
    moreover have "attributes (heap ?w1 this) ?n = Some ''42''" by (simp add: written_heap)
    ultimately show ?thesis using False by simp
  next
    case True
    with l d have r: "changeListener host (Suc depth) w this target = Returned () ?w3" by simp
    have "same_outside (''bind-'' @ ?n) ?w2 ?w3"
      by (rule attributeChangedCallback_same_outside [OF css])
    then have "attributes (heap ?w3 this) = attributes (heap ?w2 this)"
      by (rule same_outside_set_component)
    then have a: "attributes (heap ?w3 this) ?n = Some ''42''" by (simp add: written_heap)
    from attributeChangedCallback_log_extends [of host "Suc depth" ?w2 this ?n ?old
        "Str ''42''" None]
    obtain t where "log ?w3 = log ?w2 @ t" ..
    then have lg: "\<exists>t. log ?w3 = log w @ Callback this ?n ?old (Str ''42'') None # t"
      by (simp add: emit_def written_heap)
    have same: "?w3 = emit (Callback this ?n (Str ''42'') (Str ''42'') None) ?w1"
      if "?old = Str ''42''"
      using that by simp
    have upd: "\<forall>e cs. Element e cs \<in> set (elements_of (shadowRoot (heap ?w3 this))) \<longrightarrow>
                    name_attr e = Some ''bind-data-spam'' \<longrightarrow>
                    value_setter e (Str ''42'') ''42'' = Inr (value_prop e, text_of (Element e cs))"
      if new: "?old \<noteq> Str ''42''"
        and acc: "list_all (accepts ''bind-data-spam'' (Str ''42'')) (shadowRoot (heap w this))"
    proof -
      from new have "Str ''42'' \<noteq> ?old" by simp
      moreover from acc
      have "list_all (accepts (''bind-'' @ ?n) (Str ''42'')) (shadowRoot (heap ?w2 this))"
        by (simp add: written_heap)
      ultimately have "list_all (bound (''bind-'' @ ?n) (Str ''42'')) (shadowRoot (heap ?w3 this))"
        by (rule attributeChangedCallback_bound_accepted [OF css])
      then have b: "list_all (bound ''bind-data-spam'' (Str ''42'')) (shadowRoot (heap ?w3 this))"
        by simp
      show ?thesis
        using bound_forest_elements [OF b] by simp
    qed
    from r a lg same upd True show ?thesis by simp
  qed
qed


theorem change_event_reflected_witness:
  "\<exists>w'. changeListener strict_host (Suc 0) (form [''data-spam''] Map.empty form_nodes) 0
            typed_input = Returned () w' \<and>
     attributes (heap w' 0) ''data-spam'' = Some ''42'' \<and>
     log w' =
        [Callback 0 ''data-spam'' Null (Str ''42'') None,
         SetTextContent 0 [0] (Str ''42''), SetValue 0 [0] (Str ''42''),
         SetTextContent 0 [1] (Str ''42''), SetValue 0 [1] (Str ''42'')] \<and>
     map name_of (shadowRoot (heap w' 0)) = [Some ''bind-data-spam'', Some ''bind-data-spam''] \<and>
     map text_content (shadowRoot (heap w' 0)) = [Str ''42'', Str ''42''] \<and>
     map value_of (shadowRoot (heap w' 0)) = [Str ''42'', Str ''42''] \<and>
     list_all (\<lambda>n. case n of
                  Text t \<Rightarrow> True
                | Element e cs \<Rightarrow>
                    if name_attr e = Some ''bind-data-spam''
                    then value_setter e (Str ''42'') ''42'' = Inr (value_prop e, text_of n)
                    else True)
       (elements_of (shadowRoot (heap w' 0)))"
proof -
  let ?w = "form [''data-spam''] Map.empty form_nodes"
  let ?run = "changeListener strict_host (Suc 0) ?w 0 typed_input"
  have 1: "reflects_name typed_input"
    and 2: "name_attr typed_input = Some ''bind-data-spam''"
    and 3: "value_prop typed_input = Str ''42''"
    by (simp_all add: typed_input_def text_input_def)
  have obs: "''data-spam'' \<in> set (observedAttributes (heap ?w 0))" by code_simp
  have old: "previous ?w 0 ''data-spam'' \<noteq> Str ''42''" by code_simp
  have acc: "list_all (accepts ''bind-data-spam'' (Str ''42'')) (shadowRoot (heap ?w 0))"
    by code_simp
  from change_event_reflected [OF 1 2 3, of strict_host 0 ?w 0] obs old acc
  obtain w' where run: "?run = Returned () w'"
    and a: "attributes (heap w' 0) ''data-spam'' = Some ''42''"
    and all: "\<And>e cs. Element e cs \<in> set (elements_of (shadowRoot (heap w' 0))) \<Longrightarrow>
                    name_attr e = Some ''bind-data-spam'' \<Longrightarrow>
                    value_setter e (Str ''42'') ''42'' = Inr (value_prop e, text_of (Element e cs))"
    by blast
  have la: "list_all (\<lambda>n. case n of
                  Text t \<Rightarrow> True
                | Element e cs \<Rightarrow>
                    if name_attr e = Some ''bind-data-spam''
                    then value_setter e (Str ''42'') ''42'' = Inr (value_prop e, text_of n)
                    else True)
       (elements_of (shadowRoot (heap w' 0)))"
    unfolding list_all_iff using all by (auto split: dom.split)
  have "log (world_of ?run) =
        [Callback 0 ''data-spam'' Null (Str ''42'') None,
         SetTextContent 0 [0] (Str ''42''), SetValue 0 [0] (Str ''42''),
         SetTextContent 0 [1] (Str ''42''), SetValue 0 [1] (Str ''42'')]"
    and "map name_of (shadowRoot (heap (world_of ?run) 0))
           = [Some ''bind-data-spam'', Some ''bind-data-spam'']"
    and "map text_content (shadowRoot (heap (world_of ?run) 0)) = [Str ''42'', Str ''42'']"
    and "map value_of (shadowRoot (heap (world_of ?run) 0)) = [Str ''42'', Str ''42'']"
    by code_simp+
  with run have ev: "log w' =
        [Callback 0 ''data-spam'' Null (Str ''42'') None,
         SetTextContent 0 [0] (Str ''42''), SetValue 0 [0] (Str ''42''),
         SetTextContent 0 [1] (Str ''42''), SetValue 0 [1] (Str ''42'')]"
    "map name_of (shadowRoot (heap w' 0)) = [Some ''bind-data-spam'', Some ''bind-data-spam'']"
    "map text_content (shadowRoot (heap w' 0)) = [Str ''42'', Str ''42'']"
    "map value_of (shadowRoot (heap w' 0)) = [Str ''42'', Str ''42'']"
    by simp_all
  from run a ev la show ?thesis by simp
qed

text \<open>
  The claim as stated fails in four ways; in each the event comes from a node named
  \<^verbatim>\<open>bind-data-spam\<close> whose value is \<^verbatim>\<open>42\<close>, next to a heading named \<^verbatim>\<open>bind-data-spam\<close> that
  shows \<^verbatim>\<open>old\<close>.
  \<^item> The class keeps the base class's empty \<^verbatim>\<open>observedAttributes\<close>: the attribute is
    written, nothing is called, the heading keeps its text.
  \<^item> The attribute is \<^verbatim>\<open>42\<close> already: the host calls the callback with \<^verbatim>\<open>42\<close> twice, it
    returns at its first test, the heading keeps its text.
  \<^item> The node is a heading, which has no \<^verbatim>\<open>name\<close> property: the listener returns at its
    first test and the attribute is not written.
  \<^item> A file input named \<^verbatim>\<open>bind-data-spam\<close> comes first in the tree: assigning \<^verbatim>\<open>42\<close> to its
    value throws, the loop ends there, and the heading after it keeps its text.
\<close>

theorem change_event_not_propagated:
  "reflects_name typed_input \<and>
   name_attr typed_input = Some ''bind-data-spam'' \<and>
   value_prop typed_input = Str ''42'' \<and>
   map name_of form_nodes = [Some ''bind-data-spam'', Some ''bind-data-spam''] \<and>
   returned (changeListener strict_host (Suc 0) (form [] Map.empty form_nodes) 0 typed_input) \<and>
   attributes (heap (world_of
      (changeListener strict_host (Suc 0) (form [] Map.empty form_nodes) 0 typed_input)) 0)
     ''data-spam'' = Some ''42'' \<and>
   log (world_of
      (changeListener strict_host (Suc 0) (form [] Map.empty form_nodes) 0 typed_input)) = [] \<and>
   map text_content (shadowRoot (heap (world_of
      (changeListener strict_host (Suc 0) (form [] Map.empty form_nodes) 0 typed_input)) 0))
     = [Str ''old'', Str []] \<and>
   ''data-spam'' \<in> set (observedAttributes
      (heap (form [''data-spam''] [''data-spam'' \<mapsto> ''42''] form_nodes) 0)) \<and>
   returned (changeListener strict_host (Suc 0)
      (form [''data-spam''] [''data-spam'' \<mapsto> ''42''] form_nodes) 0 typed_input) \<and>
   log (world_of (changeListener strict_host (Suc 0)
      (form [''data-spam''] [''data-spam'' \<mapsto> ''42''] form_nodes) 0 typed_input))
     = [Callback 0 ''data-spam'' (Str ''42'') (Str ''42'') None] \<and>
   map text_content (shadowRoot (heap (world_of (changeListener strict_host (Suc 0)
      (form [''data-spam''] [''data-spam'' \<mapsto> ''42''] form_nodes) 0 typed_input)) 0))
     = [Str ''old'', Str []] \<and>
   name_attr notified_heading = Some ''bind-data-spam'' \<and>
   value_prop notified_heading = Str ''42'' \<and>
   returned (changeListener strict_host (Suc 0) (form [''data-spam''] Map.empty form_nodes) 0
      notified_heading) \<and>
   attributes (heap (world_of
      (changeListener strict_host (Suc 0) (form [''data-spam''] Map.empty form_nodes) 0
         notified_heading)) 0) ''data-spam'' = None \<and>
   log (world_of
      (changeListener strict_host (Suc 0) (form [''data-spam''] Map.empty form_nodes) 0
         notified_heading)) = [] \<and>
   map name_of upload_nodes
     = [Some ''bind-data-spam'', Some ''bind-data-spam'', Some ''bind-data-spam''] \<and>
   returned (changeListener strict_host (Suc 0) (form [''data-spam''] Map.empty upload_nodes) 0
      typed_input) \<and>
   log (world_of
      (changeListener strict_host (Suc 0) (form [''data-spam''] Map.empty upload_nodes) 0
         typed_input))
     = [Callback 0 ''data-spam'' Null (Str ''42'') None, SetTextContent 0 [0] (Str ''42'')] \<and>
   map text_content (shadowRoot (heap (world_of
      (changeListener strict_host (Suc 0) (form [''data-spam''] Map.empty upload_nodes) 0
         typed_input)) 0))
     = [Str ''42'', Str ''old'', Str []]"
  by code_simp

subsection \<open>Construction from a configuration\<close>

lemma attributeChangedCallback_bound_other:
  assumes "css_plain name" and "''bind-'' @ name \<noteq> s"
  shows "list_all (bound s u) (shadowRoot (heap w c)) \<Longrightarrow>
   list_all (bound s u)
     (shadowRoot (heap (world_of (attributeChangedCallback host depth w x name old new source)) c))"
proof (induction depth arbitrary: w x source)
  case 0
  then show ?case by simp
next
  case (Suc depth)
  let ?P = "\<lambda>w. list_all (bound s u) (shadowRoot (heap w c))"
  let ?sel = "by_name (''bind-'' @ name)"
  have q: "query host name (shadowRoot (heap w x)) = Inr ?sel"
    by (rule query_plain [OF assms(1)])
  have bindstep: "?P (store_forest x (fst (snd (bind_forest ?sel x new [] 0 (shadowRoot (heap w x)))))
        ev w)" for ev
    using Suc.prems
      bind_bound_other(2) [OF refl assms(2), of u "shadowRoot (heap w x)" x new "[]" 0]
    by (auto simp: store_forest_heap)
  have loop: "?P (world_of (forEach (\<lambda>w' subscriber.
            attributeChangedCallback host depth
              (emit (Callback subscriber name old new (Some x)) w')
              subscriber name old new (Some x)) registered w1))" if "?P w1" for registered w1
  proof (rule forEach_invariant [where P = ?P])
    fix w' :: world and y
    assume "?P w'"
    then have "?P (emit (Callback y name old new (Some x)) w')" by simp
    then show "?P (world_of (attributeChangedCallback host depth
        (emit (Callback y name old new (Some x)) w') y name old new (Some x)))"
      by (rule Suc.IH)
  qed (rule that)
  show ?case
  proof (cases "new = old")
    case True
    with Suc.prems show ?thesis by simp
  next
    case False
    obtain e forest ev where b:
      "bind_forest ?sel x new [] 0 (shadowRoot (heap w x)) = (e, forest, ev)"
      by (cases "bind_forest ?sel x new [] 0 (shadowRoot (heap w x))") auto
    from bindstep [of ev] b have p1: "?P (store_forest x forest ev w)" by simp
    from loop [OF p1] p1 False q b show ?thesis
      by (auto simp: Let_def split: option.split property.split)
  qed
qed

lemma dataset_set_keeps:
  assumes "plain_key key" and "dataset_set host depth w this key v = Returned () w'"
  shows "list_all (accepts s u) (shadowRoot (heap w c)) \<Longrightarrow>
         list_all (accepts s u) (shadowRoot (heap w' c))"
    and "s \<noteq> ''bind-data-'' @ key \<Longrightarrow> list_all (bound s u) (shadowRoot (heap w c)) \<Longrightarrow>
         list_all (bound s u) (shadowRoot (heap w' c))"
proof -
  let ?n = "''data-'' @ key"
  let ?w1 = "written w this ?n v"
  let ?w2 = "emit (Callback this ?n (previous w this ?n) (Str v) None) ?w1"
  let ?w3 = "world_of (attributeChangedCallback host depth ?w2 this ?n (previous w this ?n)
                         (Str v) None)"
  have w': "w' = ?w3 \<or> w' = ?w1"
    using assms(2) unfolding dataset_set_plain [OF assms(1)] by (auto split: if_splits)
  {
    assume a: "list_all (accepts s u) (shadowRoot (heap w c))"
    then have "list_all (accepts s u) (shadowRoot (heap ?w2 c))" by (simp add: written_heap)
    then have "list_all (accepts s u) (shadowRoot (heap ?w3 c))"
      by (rule attributeChangedCallback_keeps_accepts)
    with w' a show "list_all (accepts s u) (shadowRoot (heap w' c))"
      by (auto simp: written_heap)
  }
  {
    assume ne: "s \<noteq> ''bind-data-'' @ key" and b: "list_all (bound s u) (shadowRoot (heap w c))"
    from ne have ne': "''bind-'' @ ?n \<noteq> s" by auto
    from b have "list_all (bound s u) (shadowRoot (heap ?w2 c))" by (simp add: written_heap)
    then have "list_all (bound s u) (shadowRoot (heap ?w3 c))"
      by (rule attributeChangedCallback_bound_other [OF css_plain_data [OF assms(1)] ne'])
    with w' b show "list_all (bound s u) (shadowRoot (heap w' c))"
      by (auto simp: written_heap)
  }
qed

lemma dataset_set_returns:
  "plain_key key \<Longrightarrow> \<exists>w'. dataset_set host depth w this key v = Returned () w'"
  by (simp add: dataset_set_plain)

text \<open>One round of the constructor's loop, on an element that has no subscribers yet.\<close>

lemma init_step:
  assumes "plain_key key" and "subscribers (heap w this) = None"
    and "list_all (accepts (''bind-data-'' @ key) (Str v)) (shadowRoot (heap w this))"
  shows "\<exists>w1 w2 t.
           dataset_set host (Suc d) w this key v = Returned () w1 \<and>
           attributeChangedCallback host (Suc d)
             (emit (Callback this (''data-'' @ key) Undefined (Str v) None) w1)
             this (''data-'' @ key) Undefined (Str v) None = Returned () w2 \<and>
           subscribers (heap w2 this) = None \<and>
           attributes (heap w2 this) = (attributes (heap w this))((''data-'' @ key) \<mapsto> v) \<and>
           list_all (bound (''bind-data-'' @ key) (Str v)) (shadowRoot (heap w2 this)) \<and>
           log w2 = log w @ t \<and>
           Callback this (''data-'' @ key) Undefined (Str v) None \<in> set t \<and>
           (\<forall>s u. list_all (accepts s u) (shadowRoot (heap w this)) \<longrightarrow>
                  list_all (accepts s u) (shadowRoot (heap w2 this))) \<and>
           (\<forall>s u. s \<noteq> ''bind-data-'' @ key \<longrightarrow>
                  list_all (bound s u) (shadowRoot (heap w this)) \<longrightarrow>
                  list_all (bound s u) (shadowRoot (heap w2 this)))"
proof -
  let ?n = "''data-'' @ key"
  let ?s = "''bind-data-'' @ key"
  let ?e = "Callback this ?n Undefined (Str v) None"
  have css: "css_plain ?n" by (rule css_plain_data [OF assms(1)])
  have bn: "''bind-'' @ ?n = ?s" by simp
  obtain w1 where r1: "dataset_set host (Suc d) w this key v = Returned () w1"
    using dataset_set_returns [OF assms(1)] by blast
  note at = dataset_set_attribute [OF assms(1) r1]
  note keep = dataset_set_keeps [OF assms(1) r1]
  from at(4) obtain t1 where l1: "log w1 = log w @ t1" ..
  let ?w1e = "emit ?e w1"
  let ?call = "attributeChangedCallback host (Suc d) ?w1e this ?n Undefined (Str v) None"
  have acc1: "list_all (accepts ?s (Str v)) (shadowRoot (heap ?w1e this))"
    using keep(1) [OF assms(3)] by simp
  obtain x forest ev where b:
    "bind_forest (by_name (''bind-'' @ ?n)) this (Str v) [] 0 (shadowRoot (heap ?w1e this))
       = (x, forest, ev)"
    by (cases "bind_forest (by_name (''bind-'' @ ?n)) this (Str v) [] 0
                 (shadowRoot (heap ?w1e this))") auto
  have "fst (bind_forest (by_name (''bind-'' @ ?n)) this (Str v) [] 0
               (shadowRoot (heap ?w1e this))) = None"
    using acc1 by (intro bind_accepts(2) [OF refl]) simp
  with b have x: "x = None" by simp
  have s1: "subscribers (heap ?w1e this) = None" using at(2) [of this] assms(2) by simp
  have new: "Str v \<noteq> Undefined" by simp
  let ?w2 = "store_forest this forest ev ?w1e"
  have r2: "?call = Returned () ?w2"
    unfolding attributeChangedCallback_Suc_plain [OF css new b] using x s1 by simp
  have s2: "subscribers (heap ?w2 this) = None" using s1 by (simp add: store_forest_heap)
  have a2: "attributes (heap ?w2 this) = (attributes (heap w this))(?n \<mapsto> v)"
    using at(1) by (simp add: store_forest_heap)
  have "list_all (bound (''bind-'' @ ?n) (Str v)) (shadowRoot (heap (world_of ?call) this))"
    using acc1 by (intro attributeChangedCallback_bound_accepted [OF css new]) simp
  with r2 have b2: "list_all (bound ?s (Str v)) (shadowRoot (heap ?w2 this))" by simp
  have l2: "log ?w2 = log w @ (t1 @ ?e # ev)"
    using l1 by (simp add: store_forest_heap emit_def)
  have e2: "?e \<in> set (t1 @ ?e # ev)" by simp
  have k2: "list_all (accepts s u) (shadowRoot (heap ?w2 this))"
    if "list_all (accepts s u) (shadowRoot (heap w this))" for s u
  proof -
    from keep(1) [OF that] have "list_all (accepts s u) (shadowRoot (heap ?w1e this))" by simp
    then have "list_all (accepts s u) (shadowRoot (heap (world_of ?call) this))"
      by (rule attributeChangedCallback_keeps_accepts)
    with r2 show ?thesis by simp
  qed
  have f2: "list_all (bound s u) (shadowRoot (heap ?w2 this))"
    if ne: "s \<noteq> ?s" and bd: "list_all (bound s u) (shadowRoot (heap w this))" for s u
  proof -
    from keep(2) [OF ne bd] have p: "list_all (bound s u) (shadowRoot (heap ?w1e this))" by simp
    from ne have ne': "''bind-'' @ ?n \<noteq> s" by auto
    from p have "list_all (bound s u) (shadowRoot (heap (world_of ?call) this))"
      by (rule attributeChangedCallback_bound_other [OF css ne'])
    with r2 show ?thesis by simp
  qed
  from r1 r2 s2 a2 b2 l2 e2 k2 f2 show ?thesis by blast
qed


lemma init_config_seeds:
  assumes "list_all (\<lambda>kv. plain_key (fst kv)) config"
    and "subscribers (heap w this) = None"
    and "list_all (\<lambda>kv. list_all (accepts (''bind-data-'' @ fst kv) (Str (snd kv)))
                          (shadowRoot (heap w this))) config"
    and "distinct (map fst config)"
  shows "\<exists>w' t.
           init_config host (Suc d) this config w = Returned () w' \<and>
           log w' = log w @ t \<and>
           (\<forall>K. K \<notin> fst ` set config \<longrightarrow>
              attributes (heap w' this) (''data-'' @ K) = attributes (heap w this) (''data-'' @ K) \<and>
              (\<forall>u. list_all (bound (''bind-data-'' @ K) u) (shadowRoot (heap w this)) \<longrightarrow>
                   list_all (bound (''bind-data-'' @ K) u) (shadowRoot (heap w' this)))) \<and>
           (\<forall>K V. (K, V) \<in> set config \<longrightarrow>
              attributes (heap w' this) (''data-'' @ K) = Some V \<and>
              list_all (bound (''bind-data-'' @ K) (Str V)) (shadowRoot (heap w' this)) \<and>
              Callback this (''data-'' @ K) Undefined (Str V) None \<in> set t)"
  using assms
proof (induction config arbitrary: w)
  case Nil
  then show ?case by simp
next
  case (Cons kv config)
  obtain k v where kv: "kv = (k, v)" by (cases kv)
  from Cons.prems(1) kv have pk: "plain_key k" by simp
  from Cons.prems(3) kv
  have ak: "list_all (accepts (''bind-data-'' @ k) (Str v)) (shadowRoot (heap w this))" by simp
  let ?dk = "''data-'' @ k"
  from init_step [OF pk Cons.prems(2) ak, of host d] obtain w1 w2 t2
    where r1: "dataset_set host (Suc d) w this k v = Returned () w1"
      and r2: "attributeChangedCallback host (Suc d)
             (emit (Callback this ?dk Undefined (Str v) None) w1)
             this ?dk Undefined (Str v) None = Returned () w2"
      and s2: "subscribers (heap w2 this) = None"
      and a2: "attributes (heap w2 this) = (attributes (heap w this))(?dk \<mapsto> v)"
      and b2: "list_all (bound (''bind-data-'' @ k) (Str v)) (shadowRoot (heap w2 this))"
      and l2: "log w2 = log w @ t2"
      and e2: "Callback this ?dk Undefined (Str v) None \<in> set t2"
      and k2: "\<And>s u. list_all (accepts s u) (shadowRoot (heap w this)) \<Longrightarrow>
                  list_all (accepts s u) (shadowRoot (heap w2 this))"
      and f2: "\<And>s u. s \<noteq> ''bind-data-'' @ k \<Longrightarrow>
                  list_all (bound s u) (shadowRoot (heap w this)) \<Longrightarrow>
                  list_all (bound s u) (shadowRoot (heap w2 this))"
    by blast
  from Cons.prems(1) have p': "list_all (\<lambda>kv. plain_key (fst kv)) config" by simp
  from Cons.prems(3) k2
  have a': "list_all (\<lambda>kv. list_all (accepts (''bind-data-'' @ fst kv) (Str (snd kv)))
                          (shadowRoot (heap w2 this))) config"
    by (simp add: list_all_iff)
  from Cons.prems(4) have d': "distinct (map fst config)" by simp
  from Cons.IH [OF p' s2 a' d'] obtain w' t'
    where r: "init_config host (Suc d) this config w2 = Returned () w'"
      and l: "log w' = log w2 @ t'"
      and f: "\<And>K. K \<notin> fst ` set config \<Longrightarrow>
              attributes (heap w' this) (''data-'' @ K) = attributes (heap w2 this) (''data-'' @ K) \<and>
              (\<forall>u. list_all (bound (''bind-data-'' @ K) u) (shadowRoot (heap w2 this)) \<longrightarrow>
                   list_all (bound (''bind-data-'' @ K) u) (shadowRoot (heap w' this)))"
      and g: "\<And>K V. (K, V) \<in> set config \<Longrightarrow>
                 attributes (heap w' this) (''data-'' @ K) = Some V \<and>
                 list_all (bound (''bind-data-'' @ K) (Str V)) (shadowRoot (heap w' this)) \<and>
                 Callback this (''data-'' @ K) Undefined (Str V) None \<in> set t'"
    by blast
  have run: "init_config host (Suc d) this (kv # config) w = Returned () w'"
    using kv r1 r2 r by simp
  have log: "log w' = log w @ (t2 @ t')" using l l2 by simp
  have frame: "attributes (heap w' this) (''data-'' @ K) = attributes (heap w this) (''data-'' @ K) \<and>
              (\<forall>u. list_all (bound (''bind-data-'' @ K) u) (shadowRoot (heap w this)) \<longrightarrow>
                   list_all (bound (''bind-data-'' @ K) u) (shadowRoot (heap w' this)))"
    if notin: "K \<notin> fst ` set (kv # config)" for K
  proof -
    from notin kv have ne: "k \<noteq> K" and rest: "K \<notin> fst ` set config" by auto
    from ne have nd: "''data-'' @ K \<noteq> ?dk" and nb: "''bind-data-'' @ K \<noteq> ''bind-data-'' @ k"
      by simp_all
    from a2 nd have "attributes (heap w2 this) (''data-'' @ K) = attributes (heap w this) (''data-'' @ K)"
      by simp
    moreover have "list_all (bound (''bind-data-'' @ K) u) (shadowRoot (heap w2 this))"
      if "list_all (bound (''bind-data-'' @ K) u) (shadowRoot (heap w this))" for u
      using nb that by (rule f2)
    ultimately show ?thesis using f [OF rest] by simp
  qed
  have seeded: "attributes (heap w' this) (''data-'' @ K) = Some V \<and>
                 list_all (bound (''bind-data-'' @ K) (Str V)) (shadowRoot (heap w' this)) \<and>
                 Callback this (''data-'' @ K) Undefined (Str V) None \<in> set (t2 @ t')"
    if mem: "(K, V) \<in> set (kv # config)" for K V
  proof (cases "(K, V) = kv")
    case True
    with kv have K: "K = k" and V: "V = v" by simp_all
    from Cons.prems(4) kv have rest: "K \<notin> fst ` set config" by (simp add: K)
    from a2 K V have "attributes (heap w2 this) (''data-'' @ K) = Some V" by simp
    moreover from b2 K V
    have "list_all (bound (''bind-data-'' @ K) (Str V)) (shadowRoot (heap w2 this))" by simp
    moreover from e2 K V have "Callback this (''data-'' @ K) Undefined (Str V) None \<in> set t2"
      by simp
    ultimately show ?thesis using f [OF rest] by simp
  next
    case False
    with mem have "(K, V) \<in> set config" by simp
    from g [OF this] show ?thesis by simp
  qed
  from run log frame seeded show ?case by blast
qed

text \<open>
  Claim C5, as the code has it. Take a configuration of strings with distinct keys, each
  of which has no uppercase letter, no hyphen before a lowercase letter, no character an
  attribute name may not have and none that is special in a quoted string of a selector,
  and a template in which no element named \<^verbatim>\<open>bind-data-k\<close> has a \<^verbatim>\<open>value\<close> setter that throws
  on the value configured for \<^verbatim>\<open>k\<close>. Construction then returns, and for every entry
  \<^verbatim>\<open>K: V\<close>: the attribute \<^verbatim>\<open>data-K\<close> is \<^verbatim>\<open>V\<close>; the constructor itself has called
  \<^verbatim>\<open>attributeChangedCallback\<close> with \<^verbatim>\<open>data-K\<close>, \<^verbatim>\<open>undefined\<close> and \<^verbatim>\<open>V\<close>; and every element
  named \<^verbatim>\<open>bind-data-K\<close> in the shadow tree has the value and the text content that its
  \<^verbatim>\<open>value\<close> setter makes of \<^verbatim>\<open>V\<close> and the text \<^verbatim>\<open>V\<close>: on every element whose setter leaves
  the text alone, the text content \<^verbatim>\<open>V\<close>. The class's observed attributes are arbitrary, so
  none of this depends on the host calling the callback.
\<close>

theorem constructor_seeds_bindings:
  assumes "distinct (map fst config)"
    and "list_all (\<lambda>kv. plain_key (fst kv)) config"
    and "list_all (\<lambda>kv. list_all (accepts (''bind-data-'' @ fst kv) (Str (snd kv))) content)
           config"
    and "(K, V) \<in> set config"
  shows "\<exists>w' t.
           constructor host (Suc depth) w this (Some content) observed config = Returned () w' \<and>
           log w' = log w @ t \<and>
           attributes (heap w' this) (''data-'' @ K) = Some V \<and>
           Callback this (''data-'' @ K) Undefined (Str V) None \<in> set t \<and>
           (\<forall>e cs. Element e cs \<in> set (elements_of (shadowRoot (heap w' this))) \<longrightarrow>
              name_attr e = Some (''bind-data-'' @ K) \<longrightarrow>
              value_setter e (Str V) V = Inr (value_prop e, text_of (Element e cs)))"
proof -
  let ?w0 = "set_component this ((new_component observed)\<lparr>shadowRoot := content\<rparr>)
               (set_component this (new_component observed) w)"
  have c: "constructor host (Suc depth) w this (Some content) observed config
      = init_config host (Suc depth) this config ?w0"
    by (simp add: constructor_def Let_def)
  have s0: "subscribers (heap ?w0 this) = None"
    by (simp add: set_component_def new_component_def)
  have f0: "shadowRoot (heap ?w0 this) = content"
    by (simp add: set_component_def)
  from assms(3) f0
  have a0: "list_all (\<lambda>kv. list_all (accepts (''bind-data-'' @ fst kv) (Str (snd kv)))
                          (shadowRoot (heap ?w0 this))) config"
    by simp
  from init_config_seeds [OF assms(2) s0 a0 assms(1), of host depth] assms(4) obtain w' t
    where r: "init_config host (Suc depth) this config ?w0 = Returned () w'"
      and l: "log w' = log ?w0 @ t"
      and a: "attributes (heap w' this) (''data-'' @ K) = Some V"
      and b: "list_all (bound (''bind-data-'' @ K) (Str V)) (shadowRoot (heap w' this))"
      and e: "Callback this (''data-'' @ K) Undefined (Str V) None \<in> set t"
    by blast
  from bound_forest_elements [OF b]
  have "\<forall>e cs. Element e cs \<in> set (elements_of (shadowRoot (heap w' this))) \<longrightarrow>
              name_attr e = Some (''bind-data-'' @ K) \<longrightarrow>
              value_setter e (Str V) V = Inr (value_prop e, text_of (Element e cs))"
    by simp
  moreover from l have "log w' = log w @ t" by (simp add: set_component_def)
  ultimately show ?thesis using c r a e by auto
qed


theorem constructor_seeds_bindings_witness:
  "\<exists>w'. constructor strict_host (Suc 0) page 9 (Some [h1_node, input_node, p_node]) []
            [(''spam'', ''1''), (''eggs'', ''2'')] = Returned () w' \<and>
     attributes (heap w' 9) ''data-eggs'' = Some ''2'' \<and>
     log w' =
       [Callback 9 ''data-spam'' Undefined (Str ''1'') None,
        SetTextContent 9 [0] (Str ''1''), SetValue 9 [0] (Str ''1''),
        SetTextContent 9 [1] (Str ''1''), SetValue 9 [1] (Str ''1''),
        Callback 9 ''data-eggs'' Undefined (Str ''2'') None,
        SetTextContent 9 [2] (Str ''2''), SetValue 9 [2] (Str ''2'')] \<and>
     map name_of (shadowRoot (heap w' 9))
       = [Some ''bind-data-spam'', Some ''bind-data-spam'', Some ''bind-data-eggs''] \<and>
     map text_content (shadowRoot (heap w' 9)) = [Str ''1'', Str ''1'', Str ''2''] \<and>
     map value_of (shadowRoot (heap w' 9)) = [Str ''1'', Str ''1'', Str ''2''] \<and>
     list_all (\<lambda>n. case n of
                  Text t \<Rightarrow> True
                | Element e cs \<Rightarrow>
                    if name_attr e = Some ''bind-data-eggs''
                    then value_setter e (Str ''2'') ''2'' = Inr (value_prop e, text_of n)
                    else True)
       (elements_of (shadowRoot (heap w' 9)))"
proof -
  let ?config = "[(''spam'', ''1''), (''eggs'', ''2'')]"
  let ?content = "[h1_node, input_node, p_node]"
  let ?run = "constructor strict_host (Suc 0) page 9 (Some ?content) [] ?config"
  have 1: "distinct (map fst ?config)" by simp
  have 2: "list_all (\<lambda>kv. plain_key (fst kv)) ?config" by code_simp
  have 3: "list_all (\<lambda>kv. list_all (accepts (''bind-data-'' @ fst kv) (Str (snd kv))) ?content)
             ?config"
    by code_simp
  have 4: "(''eggs'', ''2'') \<in> set ?config" by simp
  from constructor_seeds_bindings [OF 1 2 3 4, of strict_host 0 page 9 "[]"]
  obtain w' t
    where r: "?run = Returned () w'"
      and a: "attributes (heap w' 9) (''data-'' @ ''eggs'') = Some ''2''"
      and all: "\<And>e cs. Element e cs \<in> set (elements_of (shadowRoot (heap w' 9))) \<Longrightarrow>
              name_attr e = Some (''bind-data-'' @ ''eggs'') \<Longrightarrow>
              value_setter e (Str ''2'') ''2'' = Inr (value_prop e, text_of (Element e cs))"
    by blast
  have la: "list_all (\<lambda>n. case n of
                  Text t \<Rightarrow> True
                | Element e cs \<Rightarrow>
                    if name_attr e = Some ''bind-data-eggs''
                    then value_setter e (Str ''2'') ''2'' = Inr (value_prop e, text_of n)
                    else True)
       (elements_of (shadowRoot (heap w' 9)))"
    unfolding list_all_iff using all by (auto split: dom.split)
  have "log (world_of ?run) =
       [Callback 9 ''data-spam'' Undefined (Str ''1'') None,
        SetTextContent 9 [0] (Str ''1''), SetValue 9 [0] (Str ''1''),
        SetTextContent 9 [1] (Str ''1''), SetValue 9 [1] (Str ''1''),
        Callback 9 ''data-eggs'' Undefined (Str ''2'') None,
        SetTextContent 9 [2] (Str ''2''), SetValue 9 [2] (Str ''2'')]"
    and "map name_of (shadowRoot (heap (world_of ?run) 9))
       = [Some ''bind-data-spam'', Some ''bind-data-spam'', Some ''bind-data-eggs'']"
    and "map text_content (shadowRoot (heap (world_of ?run) 9)) = [Str ''1'', Str ''1'', Str ''2'']"
    and "map value_of (shadowRoot (heap (world_of ?run) 9)) = [Str ''1'', Str ''1'', Str ''2'']"
    by code_simp+
  with r have ev: "log w' =
       [Callback 9 ''data-spam'' Undefined (Str ''1'') None,
        SetTextContent 9 [0] (Str ''1''), SetValue 9 [0] (Str ''1''),
        SetTextContent 9 [1] (Str ''1''), SetValue 9 [1] (Str ''1''),
        Callback 9 ''data-eggs'' Undefined (Str ''2'') None,
        SetTextContent 9 [2] (Str ''2''), SetValue 9 [2] (Str ''2'')]"
    "map name_of (shadowRoot (heap w' 9))
       = [Some ''bind-data-spam'', Some ''bind-data-spam'', Some ''bind-data-eggs'']"
    "map text_content (shadowRoot (heap w' 9)) = [Str ''1'', Str ''1'', Str ''2'']"
    "map value_of (shadowRoot (heap w' 9)) = [Str ''1'', Str ''1'', Str ''2'']"
    by simp_all
  from a have a': "attributes (heap w' 9) ''data-eggs'' = Some ''2''" by simp
  from r a' ev la show ?thesis by simp
qed

text \<open>
  The claim as stated fails for these configurations, each with one key.
  \<^item> \<^verbatim>\<open>highScore\<close>: \<^verbatim>\<open>dataset['highScore']\<close> is the attribute \<^verbatim>\<open>data-high-score\<close>, so
    \<^verbatim>\<open>data-highScore\<close> is never set, the callback is called for \<^verbatim>\<open>data-highScore\<close>, and the
    input named \<^verbatim>\<open>bind-data-high-score\<close> is not populated.
  \<^item> \<^verbatim>\<open>high-score\<close>, and a key with a space: the assignment to \<^verbatim>\<open>dataset\<close> throws, and the
    callback is never called.
  \<^item> A key with a double quote: the attribute is set and the callback called, and the
    selector made from the name is refused with a \<^verbatim>\<open>SyntaxError\<close>.
  \<^item> \<^verbatim>\<open>spam\<close>, with a file input named \<^verbatim>\<open>bind-data-spam\<close> in front of a heading of that
    name: assigning to the file input's value throws, and the heading is not populated.
\<close>

theorem camel_case_key_sets_other_attribute:
  "returned (constructor strict_host (Suc 0) page 9 (Some [score_node]) []
               [(''highScore'', ''1'')]) \<and>
   attributes (heap (world_of
      (constructor strict_host (Suc 0) page 9 (Some [score_node]) [] [(''highScore'', ''1'')])) 9)
      (''data-'' @ ''highScore'') = None \<and>
   attributes (heap (world_of
      (constructor strict_host (Suc 0) page 9 (Some [score_node]) [] [(''highScore'', ''1'')])) 9)
      ''data-high-score'' = Some ''1'' \<and>
   log (world_of
      (constructor strict_host (Suc 0) page 9 (Some [score_node]) [] [(''highScore'', ''1'')]))
     = [Callback 9 ''data-highScore'' Undefined (Str ''1'') None] \<and>
   map text_content (shadowRoot (heap (world_of
      (constructor strict_host (Suc 0) page 9 (Some [score_node]) [] [(''highScore'', ''1'')])) 9))
     = [Str []] \<and>
   thrown (constructor strict_host (Suc 0) page 9 (Some [h1_node]) [] [(''high-score'', ''1'')])
     = Some SyntaxError \<and>
   log (world_of
      (constructor strict_host (Suc 0) page 9 (Some [h1_node]) [] [(''high-score'', ''1'')]))
     = [] \<and>
   thrown (constructor strict_host (Suc 0) page 9 (Some [h1_node]) [] [(''a b'', ''1'')])
     = Some InvalidCharacterError \<and>
   thrown (constructor strict_host (Suc 0) page 9 (Some [h1_node]) []
             [([CHR ''a'', CHR 0x22, CHR ''b''], ''1'')])
     = Some SyntaxError \<and>
   attributes (heap (world_of
      (constructor strict_host (Suc 0) page 9 (Some [h1_node]) []
         [([CHR ''a'', CHR 0x22, CHR ''b''], ''1'')])) 9)
      (''data-'' @ [CHR ''a'', CHR 0x22, CHR ''b'']) = Some ''1'' \<and>
   thrown (constructor strict_host (Suc 0) page 9 (Some upload_nodes) [] [(''spam'', ''42'')])
     = Some InvalidStateError \<and>
   map text_content (shadowRoot (heap (world_of
      (constructor strict_host (Suc 0) page 9 (Some upload_nodes) [] [(''spam'', ''42'')])) 9))
     = [Str ''42'', Str ''old'', Str []]"
  by code_simp

subsection \<open>When a notification returns\<close>

lemma well_ranked_same_outside:
  assumes "same_outside s w w'" and "well_ranked rank name w"
  shows "well_ranked rank name w'"
proof -
  have "subscribers (heap w' r) = subscribers (heap w r)" for r
    using assms(1) by (rule same_outside_set_component)
  with assms(2) show ?thesis
    by (simp add: well_ranked_def subscriber_list_def registered_for_def)
qed

lemma forEach_returned:
  assumes "\<And>w x. x \<in> set xs \<Longrightarrow> Q w \<Longrightarrow> returned (f w x) \<and> Q (world_of (f w x))"
    and "Q w"
  shows "returned (forEach f xs w)"
  using assms
proof (induction xs arbitrary: w)
  case Nil
  show ?case by simp
next
  case (Cons x xs)
  from Cons.prems(1) [of x w] Cons.prems(2)
  have r: "returned (f w x)" and q: "Q (world_of (f w x))" by simp_all
  from r obtain u w' where f: "f w x = Returned u w'" by (cases "f w x") auto
  with q have "Q w'" by simp
  with Cons.IH [of w'] Cons.prems(1) have "returned (forEach f xs w')" by simp
  with f show ?case by simp
qed

text \<open>
  Without a cycle among the subscriptions for the name, and with no bound element whose
  \<^verbatim>\<open>value\<close> setter throws on the new value, the callback returns as soon as the stack has
  room for the element's rank.
\<close>

lemma attributeChangedCallback_returns:
  assumes "css_plain name"
  shows "well_ranked rank name w \<Longrightarrow>
         (\<And>r. list_all (accepts (''bind-'' @ name) new) (shadowRoot (heap w r))) \<Longrightarrow>
         rank this < depth \<Longrightarrow>
         returned (attributeChangedCallback host depth w this name old new source)"
proof (induction depth arbitrary: w this source)
  case 0
  then show ?case by simp
next
  case (Suc depth)
  let ?s = "''bind-'' @ name"
  let ?Q = "\<lambda>w. well_ranked rank name w \<and>
                 (\<forall>r. list_all (accepts ?s new) (shadowRoot (heap w r)))"
  show ?case
  proof (cases "new = old")
    case True
    then show ?thesis by simp
  next
    case False
    obtain x forest ev where b:
      "bind_forest (by_name ?s) this new [] 0 (shadowRoot (heap w this)) = (x, forest, ev)"
      by (cases "bind_forest (by_name ?s) this new [] 0 (shadowRoot (heap w this))") auto
    have "fst (bind_forest (by_name ?s) this new [] 0 (shadowRoot (heap w this))) = None"
      using Suc.prems(2) [of this] by (intro bind_accepts(2) [OF refl])
    with b have x: "x = None" by simp
    let ?w1 = "store_forest this forest ev w"
    have so: "same_outside ?s w ?w1"
    proof -
      from bind_prune(2) [OF refl, of ?s this new "[]" 0 "shadowRoot (heap w this)"] b
      have "map (prune ?s) forest = map (prune ?s) (shadowRoot (heap w this))" by simp
      then show ?thesis by (simp add: same_outside_def store_forest_heap)
    qed
    then have wr1: "well_ranked rank name ?w1"
      using Suc.prems(1) by (rule well_ranked_same_outside)
    have acc1: "list_all (accepts ?s new) (shadowRoot (heap ?w1 r))" for r
      using bind_keeps_accepts(2) [OF Suc.prems(2) [of this], of "by_name ?s" this new "[]" 0] b
        Suc.prems(2) [of r]
      by (simp add: store_forest_heap)
    have q1: "?Q ?w1" using wr1 acc1 by simp
    have loop: "returned (forEach (\<lambda>w' subscriber.
            attributeChangedCallback host depth
              (emit (Callback subscriber name old new (Some this)) w')
              subscriber name old new (Some this)) registered ?w1)"
      if reg: "list_all (\<lambda>s. rank s < rank this) registered" for registered
    proof (rule forEach_returned [where Q = ?Q])
      fix w' :: world and y
      assume y: "y \<in> set registered" and q: "?Q w'"
      let ?w = "emit (Callback y name old new (Some this)) w'"
      let ?r = "attributeChangedCallback host depth ?w y name old new (Some this)"
      from q have wr: "well_ranked rank name ?w"
        using same_outside_emit by (blast intro: well_ranked_same_outside)
      from q have acc: "list_all (accepts ?s new) (shadowRoot (heap ?w r))" for r by simp
      from y reg Suc.prems(3) have "rank y < depth" by (auto simp: list_all_iff)
      with wr acc have ret: "returned ?r" by (intro Suc.IH)
      have "same_outside ?s ?w (world_of ?r)"
        by (rule attributeChangedCallback_same_outside [OF assms])
      then have "well_ranked rank name (world_of ?r)"
        using wr by (rule well_ranked_same_outside)
      moreover have "list_all (accepts ?s new) (shadowRoot (heap (world_of ?r) r))" for r
        using acc [of r] by (rule attributeChangedCallback_keeps_accepts)
      ultimately show "returned ?r \<and> ?Q (world_of ?r)" using ret by simp
    qed (rule q1)
    from Suc.prems(1) have ok: "case subscribers (heap w this) of None \<Rightarrow> True
        | Some subs \<Rightarrow> get_prop subs name \<noteq> Inherited"
      and reg: "list_all (\<lambda>s. rank s < rank this) (subscriber_list (heap w this) name)"
      by (simp_all add: well_ranked_def)
    note unfold = attributeChangedCallback_Suc_plain [OF assms False b]
    show ?thesis
    proof (cases "subscribers (heap w this)")
      case None
      with x show ?thesis unfolding unfold by simp
    next
      case (Some subs)
      show ?thesis
      proof (cases "get_prop subs name")
        case Absent
        with Some x show ?thesis unfolding unfold by simp
      next
        case Inherited
        with ok Some show ?thesis by simp
      next
        case (Own registered)
        with Some have "subscriber_list (heap w this) name = registered"
          by (auto simp: subscriber_list_def registered_for_def get_prop_def
              split: option.splits if_splits)
        with reg have "list_all (\<lambda>s. rank s < rank this) registered" by simp
        from loop [OF this] Some Own x show ?thesis unfolding unfold by simp
      qed
    qed
  qed
qed

text \<open>An element that subscribed to itself overflows the stack, whatever its depth.\<close>

lemma self_subscription_overflows:
  assumes "css_plain name" and "subscribers (heap w this) = Some subs"
    and "subs name = Some (this # rest)" and "new \<noteq> old"
  shows "list_all (accepts (''bind-'' @ name) new) (shadowRoot (heap w this)) \<Longrightarrow>
         \<exists>w'. attributeChangedCallback host depth w this name old new source = Threw RangeError w'"
  using assms(2)
proof (induction depth arbitrary: w source)
  case 0
  show ?case by simp
next
  case (Suc depth)
  let ?s = "''bind-'' @ name"
  obtain x forest ev where b:
    "bind_forest (by_name ?s) this new [] 0 (shadowRoot (heap w this)) = (x, forest, ev)"
    by (cases "bind_forest (by_name ?s) this new [] 0 (shadowRoot (heap w this))") auto
  have "fst (bind_forest (by_name ?s) this new [] 0 (shadowRoot (heap w this))) = None"
    using Suc.prems(1) by (intro bind_accepts(2) [OF refl])
  with b have x: "x = None" by simp
  let ?w1 = "store_forest this forest ev w"
  let ?w2 = "emit (Callback this name old new (Some this)) ?w1"
  have acc: "list_all (accepts ?s new) (shadowRoot (heap ?w2 this))"
    using bind_keeps_accepts(2) [OF Suc.prems(1), of "by_name ?s" this new "[]" 0] b
    by (simp add: store_forest_heap)
  from Suc.prems(2) have "subscribers (heap ?w2 this) = Some subs"
    by (simp add: store_forest_heap)
  from Suc.IH [OF acc this] obtain w' where
    "attributeChangedCallback host depth ?w2 this name old new (Some this) = Threw RangeError w'"
    by blast
  with Suc.prems(2) assms(3) x show ?case
    unfolding attributeChangedCallback_Suc_plain [OF assms(1,4) b]
    by (simp add: get_prop_def)
qed

lemma page_returns:
  "well_ranked (\<lambda>r. if r = 0 then 2 else if r = 1 then 1 else 0) ''data-spam'' page"
  unfolding well_ranked_def
  by (simp add: page_def publisher_def relay_def leaf_def subscriber_list_def registered_for_def
      get_prop_def object_prototype_keys_def)

end
